theory Spec2Isabelle
  imports Main "HOL-Library.Char_ord" "HOL-Library.List_Lexorder" "HOL-Library.Multiset"
begin

section \<open>Python text primitives\<close>

text \<open>
  The generator is text processing throughout. Python \<open>str\<close> values are modelled as
  \<^typ>\<open>string\<close>: text of the code points below 256. The character classes are Python's
  on these code points: \<open>\w\<close> of the module \<open>re\<close> holds the ASCII letters, digits and
  underscore and the letters and numeric characters \<open>0xAA\<close>, \<open>0xB2\<close>, \<open>0xB3\<close>, \<open>0xB5\<close>,
  \<open>0xB9\<close>, \<open>0xBA\<close>, \<open>0xBC\<close> to \<open>0xBE\<close>, \<open>0xC0\<close> to \<open>0xD6\<close>, \<open>0xD8\<close> to \<open>0xF6\<close> and
  \<open>0xF8\<close> to \<open>0xFF\<close>; \<open>\d\<close> holds the ten ASCII digits; \<open>\s\<close> and the white space of
  \<open>str.strip\<close> hold \<open>0x09\<close> to \<open>0x0D\<close>, \<open>0x1C\<close> to \<open>0x20\<close>, \<open>0x85\<close> and \<open>0xA0\<close>.
  Exceptions are values of \<open>py_error\<close>; a function that can raise returns
  \<open>py_error + 'a\<close>.
\<close>

datatype py_error =
    KeyError string
  | IndexError
  | TypeError
  | ValueError
  | AssertionError
  | AttributeError
  | RecursionError
  | MemoryError

definition is_digit :: "char \<Rightarrow> bool" where
  "is_digit c = (CHR ''0'' \<le> c \<and> c \<le> CHR ''9'')"

definition is_word :: "char \<Rightarrow> bool" where
  "is_word c =
     ((CHR ''a'' \<le> c \<and> c \<le> CHR ''z'') \<or> (CHR ''A'' \<le> c \<and> c \<le> CHR ''Z'')
      \<or> is_digit c \<or> c = CHR ''_''
      \<or> c = CHR 0xAA \<or> c = CHR 0xB2 \<or> c = CHR 0xB3 \<or> c = CHR 0xB5
      \<or> c = CHR 0xB9 \<or> c = CHR 0xBA \<or> (CHR 0xBC \<le> c \<and> c \<le> CHR 0xBE)
      \<or> (CHR 0xC0 \<le> c \<and> c \<le> CHR 0xD6) \<or> (CHR 0xD8 \<le> c \<and> c \<le> CHR 0xF6)
      \<or> CHR 0xF8 \<le> c)"

definition is_space :: "char \<Rightarrow> bool" where
  "is_space c =
     ((CHR 0x09 \<le> c \<and> c \<le> CHR 0x0D) \<or> (CHR 0x1C \<le> c \<and> c \<le> CHR 0x20)
      \<or> c = CHR 0x85 \<or> c = CHR 0xA0)"

definition is_upper :: "char \<Rightarrow> bool" where
  "is_upper c = (CHR ''A'' \<le> c \<and> c \<le> CHR ''Z'')"

definition is_lower :: "char \<Rightarrow> bool" where
  "is_lower c = (CHR ''a'' \<le> c \<and> c \<le> CHR ''z'')"

definition to_upper :: "char \<Rightarrow> char" where
  "to_upper c = (if is_lower c then char_of (of_char c - (32::nat)) else c)"

definition to_lower :: "char \<Rightarrow> char" where
  "to_lower c = (if is_upper c then char_of (of_char c + (32::nat)) else c)"

text \<open>
  \<open>s.capitalize()\<close>: first character upper-cased, all others lower-cased. The program
  calls it on the text matched by one of the alternatives of the pattern of typing
  names only, which are ASCII words; the case mappings are Python's on ASCII text.
\<close>

definition capitalize :: "string \<Rightarrow> string" where
  "capitalize s = (case s of [] \<Rightarrow> [] | c # cs \<Rightarrow> to_upper c # map to_lower cs)"

text \<open>\<open>s.strip()\<close>, \<open>s.strip(chars)\<close>, \<open>s.rstrip(chars)\<close>.\<close>

definition strip :: "string \<Rightarrow> string" where
  "strip s = rev (dropWhile is_space (rev (dropWhile is_space s)))"

definition rstrip_chars :: "string \<Rightarrow> string \<Rightarrow> string" where
  "rstrip_chars cs s = rev (dropWhile (\<lambda>c. c \<in> set cs) (rev s))"

definition strip_chars :: "string \<Rightarrow> string \<Rightarrow> string" where
  "strip_chars cs s = rstrip_chars cs (dropWhile (\<lambda>c. c \<in> set cs) s)"

definition startswith :: "string \<Rightarrow> string \<Rightarrow> bool" where
  "startswith s p = (take (length p) s = p)"

text \<open>\<open>sep.join(xs)\<close>.\<close>

fun join :: "string \<Rightarrow> string list \<Rightarrow> string" where
  "join sep [] = []"
| "join sep [x] = x"
| "join sep (x # y # ys) = x @ sep @ join sep (y # ys)"

text \<open>
  \<open>s.split(sep)\<close> for a non-empty separator: the pieces between the non-overlapping
  occurrences of \<open>sep\<close>, found left to right; \<open>''''.split(sep)\<close> is \<open>['''']\<close>. Every call in
  the program passes a non-empty literal separator (Python raises \<open>ValueError\<close> on an
  empty one).
\<close>

fun split_acc :: "string \<Rightarrow> string \<Rightarrow> string \<Rightarrow> string list" where
  "split_acc sep cur [] = [rev cur]"
| "split_acc sep cur (c # cs) =
     (if sep \<noteq> [] \<and> take (length sep) (c # cs) = sep
      then rev cur # split_acc sep [] (drop (length sep) (c # cs))
      else split_acc sep (c # cur) cs)"

definition split :: "string \<Rightarrow> string \<Rightarrow> string list" where
  "split s sep = split_acc sep [] s"

text \<open>
  \<open>s.replace(old, new)\<close> for a non-empty \<open>old\<close>: the non-overlapping occurrences of \<open>old\<close>,
  found left to right, each replaced by \<open>new\<close>.
\<close>

fun replace_acc :: "string \<Rightarrow> string \<Rightarrow> string \<Rightarrow> string" where
  "replace_acc old new [] = []"
| "replace_acc old new (c # cs) =
     (if old \<noteq> [] \<and> take (length old) (c # cs) = old
      then new @ replace_acc old new (drop (length old) (c # cs))
      else c # replace_acc old new cs)"

definition replace :: "string \<Rightarrow> string \<Rightarrow> string \<Rightarrow> string" where
  "replace s old new = replace_acc old new s"

text \<open>\<open>s.rindex(c)\<close> for a single character: the last position of \<open>c\<close>, or \<open>ValueError\<close>.\<close>

definition rindex :: "string \<Rightarrow> char \<Rightarrow> py_error + nat" where
  "rindex s c =
     (if c \<in> set s then Inr (length s - 1 - length (takeWhile (\<lambda>x. x \<noteq> c) (rev s)))
      else Inl ValueError)"

section \<open>Regular expressions\<close>

text \<open>
  The patterns of the program are values of \<open>regex\<close>, and \<open>match\<close> is a backtracking
  matcher with the priorities of Python's \<open>re\<close>: alternatives are tried left to right,
  \<open>?\<close>, \<open>*\<close> and \<open>+\<close> are greedy, and the first way of matching that lets the rest of
  the pattern succeed is the match. The matcher is written with a continuation \<open>k\<close>
  for the rest of the pattern; \<open>None\<close> from the continuation makes the matcher
  backtrack. A repetition whose body consumed nothing is not repeated again.
\<close>

datatype citem = Single char | Range char char | Word | Digit | Space

fun citem_has :: "citem \<Rightarrow> char \<Rightarrow> bool" where
  "citem_has (Single d) c = (c = d)"
| "citem_has (Range lo hi) c = (lo \<le> c \<and> c \<le> hi)"
| "citem_has Word c = is_word c"
| "citem_has Digit c = is_digit c"
| "citem_has Space c = is_space c"

definition in_class :: "citem list \<Rightarrow> char \<Rightarrow> bool" where
  "in_class cs c = list_ex (\<lambda>i. citem_has i c) cs"

datatype regex =
    Lit string                  \<comment> \<open>literal text\<close>
  | In "citem list"             \<comment> \<open>\<open>[...]\<close>, \<open>\w\<close>, \<open>\d\<close>, \<open>\s\<close>\<close>
  | NotIn "citem list"          \<comment> \<open>\<open>[^...]\<close>\<close>
  | Dot                         \<comment> \<open>\<open>.\<close>: any character but a newline\<close>
  | Seq regex regex
  | Alt regex regex             \<comment> \<open>\<open>a|b\<close>\<close>
  | Opt regex                   \<comment> \<open>\<open>a?\<close>\<close>
  | Star regex                  \<comment> \<open>\<open>a*\<close>\<close>
  | Group string regex          \<comment> \<open>\<open>(?P<name>a)\<close>; a numbered group is named by its number\<close>
  | NotBehind "citem list"      \<comment> \<open>\<open>(?<![...])\<close>\<close>
  | NotAhead "citem list"       \<comment> \<open>\<open>(?![...])\<close>\<close>
  | Bol                         \<comment> \<open>\<open>^\<close>\<close>
  | Eol                         \<comment> \<open>\<open>$\<close>: at the end, or before a final newline\<close>

definition Plus :: "regex \<Rightarrow> regex" where
  "Plus a = Seq a (Star a)"

fun Seqs :: "regex list \<Rightarrow> regex" where
  "Seqs [] = Lit []"
| "Seqs [a] = a"
| "Seqs (a # b # bs) = Seq a (Seqs (b # bs))"

fun Alts :: "regex list \<Rightarrow> regex" where
  "Alts [] = NotIn []"
| "Alts [a] = a"
| "Alts (a # b # bs) = Alt a (Alts (b # bs))"

record mstate =
  prev :: "char option"              \<comment> \<open>the character before the position\<close>
  rest :: string                     \<comment> \<open>the text from the position on\<close>
  groups :: "(string \<times> string) list"   \<comment> \<open>the groups captured so far, latest first\<close>

definition capture :: "string \<Rightarrow> mstate \<Rightarrow> (mstate \<Rightarrow> 'a option) \<Rightarrow> mstate \<Rightarrow> 'a option" where
  "capture n m k m' =
     k (m'\<lparr>groups := (n, take (length (rest m) - length (rest m')) (rest m)) # groups m'\<rparr>)"

definition step :: "mstate \<Rightarrow> char \<Rightarrow> string \<Rightarrow> mstate" where
  "step m c r = m\<lparr>prev := Some c, rest := r\<rparr>"

function (sequential) match :: "regex \<Rightarrow> (mstate \<Rightarrow> 'a option) \<Rightarrow> mstate \<Rightarrow> 'a option" where
  "match (Lit w) k m =
     (if take (length w) (rest m) = w
      then k (m\<lparr>prev := (if w = [] then prev m else Some (last w)),
               rest := drop (length w) (rest m)\<rparr>)
      else None)"
| "match (In cs) k m =
     (case rest m of [] \<Rightarrow> None
      | c # r \<Rightarrow> if in_class cs c then k (step m c r) else None)"
| "match (NotIn cs) k m =
     (case rest m of [] \<Rightarrow> None
      | c # r \<Rightarrow> if in_class cs c then None else k (step m c r))"
| "match Dot k m =
     (case rest m of [] \<Rightarrow> None
      | c # r \<Rightarrow> if c = CHR 0x0A then None else k (step m c r))"
| "match (Seq a b) k m = match a (match b k) m"
| "match (Alt a b) k m = (case match a k m of Some v \<Rightarrow> Some v | None \<Rightarrow> match b k m)"
| "match (Opt a) k m = (case match a k m of Some v \<Rightarrow> Some v | None \<Rightarrow> k m)"
| "match (Star a) k m =
     (case match a (\<lambda>m'. if length (rest m') < length (rest m) then match (Star a) k m'
                         else None) m
      of Some v \<Rightarrow> Some v | None \<Rightarrow> k m)"
| "match (Group n a) k m = match a (capture n m k) m"
| "match (NotBehind cs) k m =
     (case prev m of None \<Rightarrow> k m | Some c \<Rightarrow> if in_class cs c then None else k m)"
| "match (NotAhead cs) k m =
     (case rest m of [] \<Rightarrow> k m | c # _ \<Rightarrow> if in_class cs c then None else k m)"
| "match Bol k m = (if prev m = None then k m else None)"
| "match Eol k m = (if rest m = [] \<or> rest m = [CHR 0x0A] then k m else None)"
  by pat_completeness auto
termination
  by (relation "measures [\<lambda>(r, k, m). size r, \<lambda>(r, k, m). length (rest m)]") auto

text \<open>
  A match object: the whole matched text (\<open>m.group(0)\<close>) and the captured groups;
  \<open>m.group(name)\<close> is \<open>None\<close> for a group that took no part in the match.
\<close>

record match_obj =
  whole :: string
  captured :: "(string \<times> string) list"

definition group :: "match_obj \<Rightarrow> string \<Rightarrow> string option" where
  "group mo n = map_of (captured mo) n"

definition match_obj_of :: "string \<Rightarrow> mstate \<Rightarrow> match_obj" where
  "match_obj_of s m' = \<lparr>whole = take (length s - length (rest m')) s, captured = groups m'\<rparr>"

text \<open>\<open>re.match(pattern, s)\<close>: a match that starts at the first character of \<open>s\<close>.\<close>

definition re_match :: "regex \<Rightarrow> string \<Rightarrow> match_obj option" where
  "re_match r s =
     map_option (match_obj_of s) (match r Some \<lparr>prev = None, rest = s, groups = []\<rparr>)"

text \<open>
  The scan shared by \<open>pattern.sub\<close> and the collection of the matches: the leftmost
  matches, found from left to right without overlap. \<open>re_scan_from r must p s\<close> scans
  the text \<open>s\<close> that follows the character \<open>p\<close> and returns the characters outside
  every match and the matches, in order; after an empty match the next match at the
  same position has to be non-empty (\<open>must\<close>). The scan goes on after a match with the
  rest of the text, which follows the last character of the match.
\<close>

function re_scan_from ::
  "regex \<Rightarrow> bool \<Rightarrow> char option \<Rightarrow> string \<Rightarrow> (char + match_obj) list" where
  "re_scan_from r must p s =
     (case match r (\<lambda>m'. if must \<and> \<not> length (rest m') < length s then None
                          else Some (rest m', match_obj_of s m'))
                 \<lparr>prev = p, rest = s, groups = []\<rparr> of
        None \<Rightarrow> (case s of [] \<Rightarrow> [] | c # cs \<Rightarrow> Inl c # re_scan_from r False (Some c) cs)
      | Some (s', mo) \<Rightarrow>
          Inr mo #
          (if length s' < length s then re_scan_from r False (Some (last (whole mo))) s'
           else if must then map Inl s
           else re_scan_from r True p s))"
  by pat_completeness auto
termination
  by (relation "measures [\<lambda>(r, must, p, s). length s,
                          \<lambda>(r, must, p, s). if must then 0 else 1]") auto

definition re_scan :: "regex \<Rightarrow> string \<Rightarrow> (char + match_obj) list" where
  "re_scan r s = re_scan_from r False None s"

text \<open>\<open>pattern.sub(repl, s)\<close> with a function \<open>repl\<close> from the match to its replacement.\<close>

definition re_sub :: "regex \<Rightarrow> (match_obj \<Rightarrow> string) \<Rightarrow> string \<Rightarrow> string" where
  "re_sub r f s = concat (map (case_sum (\<lambda>c. [c]) f) (re_scan r s))"

text \<open>The match objects a substitution visits, in order.\<close>

definition re_finditer :: "regex \<Rightarrow> string \<Rightarrow> match_obj list" where
  "re_finditer r s = concat (map (case_sum (\<lambda>c. []) (\<lambda>m. [m])) (re_scan r s))"

text \<open>Python truth of an optional string: neither \<open>None\<close> nor empty.\<close>

definition truthy :: "string option \<Rightarrow> bool" where
  "truthy x = (case x of None \<Rightarrow> False | Some s \<Rightarrow> s \<noteq> [])"

definition group_text :: "match_obj \<Rightarrow> string \<Rightarrow> string" where
  "group_text mo n = (case group mo n of None \<Rightarrow> [] | Some t \<Rightarrow> t)"

section \<open>\<open>str.format\<close>\<close>

text \<open>
  \<open>template.format(*pos, **kw)\<close> for templates whose fields are \<open>{}\<close> (the next
  positional argument) or \<open>{name}\<close> (a keyword argument). A field that names no keyword
  argument raises \<open>KeyError\<close>, as in Python.
\<close>

definition field_value ::
  "string list \<Rightarrow> (string \<times> string) list \<Rightarrow> string \<Rightarrow> py_error + (string \<times> string list)" where
  "field_value pos kw f =
     (if f = [] then (case pos of [] \<Rightarrow> Inl IndexError | v # pos' \<Rightarrow> Inr (v, pos'))
      else (case map_of kw f of None \<Rightarrow> Inl (KeyError f) | Some v \<Rightarrow> Inr (v, pos)))"

fun format_go ::
  "string list \<Rightarrow> (string \<times> string) list \<Rightarrow> string option \<Rightarrow> string \<Rightarrow> py_error + string" where
  "format_go pos kw None [] = Inr []"
| "format_go pos kw (Some f) [] = Inl ValueError"
| "format_go pos kw None (c # cs) =
     (if c = CHR ''{'' then format_go pos kw (Some []) cs
      else if c = CHR ''}'' then Inl ValueError
      else (case format_go pos kw None cs of Inl e \<Rightarrow> Inl e | Inr t \<Rightarrow> Inr (c # t)))"
| "format_go pos kw (Some f) (c # cs) =
     (if c = CHR ''}''
      then (case field_value pos kw f of
              Inl e \<Rightarrow> Inl e
            | Inr (v, pos') \<Rightarrow>
                (case format_go pos' kw None cs of Inl e \<Rightarrow> Inl e | Inr t \<Rightarrow> Inr (v @ t)))
      else format_go pos kw (Some (f @ [c])) cs)"

definition format :: "string \<Rightarrow> string list \<Rightarrow> (string \<times> string) list \<Rightarrow> py_error + string" where
  "format template pos kw = format_go pos kw None template"

definition bindE :: "py_error + 'a \<Rightarrow> ('a \<Rightarrow> py_error + 'b) \<Rightarrow> py_error + 'b" where
  "bindE x f = (case x of Inl e \<Rightarrow> Inl e | Inr v \<Rightarrow> f v)"

definition nl :: string where
  "nl = [CHR 0x0A]"

definition triple_quote :: string where
  "triple_quote = [CHR 0x22, CHR 0x22, CHR 0x22]"

section \<open>Diagnostics and run state\<close>

text \<open>
  The class attributes of \<open>FunctionSignature\<close> (tolerance switches, downgrade switch and
  the two counters), the module globals \<open>BARE_NUPMY_NDARRAY\<close>, \<open>USE_BOOST_PYTHON\<close> and
  \<open>_visited_objects\<close>, and the records handed to \<open>logger\<close>, as one explicit state. A
  module or class object stands in \<open>_visited_objects\<close> by its identity, a number that the
  reflection of the interpreter gives to every object.
\<close>

datatype level = DEBUG | INFO | WARNING | ERROR

record state =
  ignore_invalid_signature :: bool
  ignore_invalid_defaultarg :: bool
  signature_downgrade :: bool
  n_invalid_default_values :: nat
  n_invalid_signatures :: nat
  BARE_NUPMY_NDARRAY :: bool
  USE_BOOST_PYTHON :: bool
  visited_objects :: "nat list"
  logged :: "(level \<times> string) list"

definition initial_state :: state where
  "initial_state =
     \<lparr>ignore_invalid_signature = False, ignore_invalid_defaultarg = False,
      signature_downgrade = True, n_invalid_default_values = 0, n_invalid_signatures = 0,
      BARE_NUPMY_NDARRAY = False, USE_BOOST_PYTHON = False, visited_objects = [],
      logged = []\<rparr>"

definition n_fatal_errors :: "state \<Rightarrow> nat" where
  "n_fatal_errors st =
     (if ignore_invalid_defaultarg st then 0 else n_invalid_default_values st) +
     (if ignore_invalid_signature st then 0 else n_invalid_signatures st)"

definition logger_log :: "level \<Rightarrow> string \<Rightarrow> state \<Rightarrow> state" where
  "logger_log lvl msg st = st\<lparr>logged := logged st @ [(lvl, msg)]\<rparr>"

section \<open>\<open>replace_default_pybind11_repr\<close>\<close>

definition hex_digit :: "citem list" where
  "hex_digit = [Range CHR ''0'' CHR ''9'', Range CHR ''a'' CHR ''f'', Range CHR ''A'' CHR ''F'']"

text \<open>
  \<^verbatim>\<open>(<(?P<class>\w+(\.\w+)*) object at 0x[0-9a-fA-F]+>)|(<(?P<enum>\w+(.\w+)*): \d+>)\<close>
\<close>

definition default_pybind11_repr_re :: regex where
  "default_pybind11_repr_re =
     Alt (Seqs [Lit ''<'',
                Group ''class'' (Seq (Plus (In [Word])) (Star (Seq (Lit ''.'') (Plus (In [Word]))))),
                Lit '' object at 0x'', Plus (In hex_digit), Lit ''>''])
         (Seqs [Lit ''<'',
                Group ''enum'' (Seq (Plus (In [Word])) (Star (Seq Dot (Plus (In [Word]))))),
                Lit '': '', Plus (In [Digit]), Lit ''>''])"

definition replacement :: "match_obj \<Rightarrow> string" where
  "replacement m = (if truthy (group m ''class'') then ''...'' else group_text m ''enum'')"

text \<open>
  Returns \<open>default_reprs\<close>, the matched texts for which \<open>replacement\<close> took the \<open>class\<close>
  branch, and the line after substitution.
\<close>

definition replace_default_pybind11_repr :: "string \<Rightarrow> string list \<times> string" where
  "replace_default_pybind11_repr line =
     (map whole (filter (\<lambda>m. truthy (group m ''class''))
                        (re_finditer default_pybind11_repr_re line)),
      re_sub default_pybind11_repr_re replacement line)"

section \<open>\<open>FunctionSignature\<close>\<close>

record FunctionSignature =
  name :: string
  args :: string
  rtype :: string

text \<open>
  What \<open>ast.parse\<close> answers on a candidate declaration when it does not parse it: a
  \<open>SyntaxError\<close> with its \<open>offset\<close> attribute (a number, or \<open>None\<close> when the parser reports
  no position, as for a declaration with a null character), or one of the exceptions
  that are no \<open>SyntaxError\<close>: \<open>ValueError\<close> (a null character, in earlier interpreters),
  \<open>RecursionError\<close> and \<open>MemoryError\<close> (a declaration nested too deep).
\<close>

datatype parse_failure =
    SyntaxError "int option"
  | NullCharacter
  | TooDeep
  | OutOfMemory

text \<open>
  What the program takes from outside: \<open>ast.parse\<close> on a candidate declaration
  (\<open>None\<close> when it parses, the failure otherwise); the rewriting of
  an argument list of the Boost.Python dialect into \<open>name: Type\<close> form (\<open>None\<close> when an
  index it takes does not exist); the hooks of
  \<open>function_docstring_preprocessing_hooks\<close>; and the hash that fixes the iteration order
  of a \<open>set\<close> of signatures. Every theorem below holds for all of them.
\<close>

record externals =
  ast_parse :: "string \<Rightarrow> parse_failure option"
  boost_args :: "string \<Rightarrow> string option"
  hooks :: "(string \<Rightarrow> string) list"
  hash :: "FunctionSignature \<Rightarrow> nat"

definition log_invalid_defaults :: "string list \<Rightarrow> state \<Rightarrow> state" where
  "log_invalid_defaults invalid_defaults st =
     (if invalid_defaults = [] then st
      else
        let lvl = (if ignore_invalid_defaultarg st then WARNING else ERROR);
            st1 = st\<lparr>n_invalid_default_values := n_invalid_default_values st + 1\<rparr>;
            st2 = logger_log lvl ''Default argument value(s) replaced with ellipses (...):'' st1
        in fold (\<lambda>d. logger_log lvl (''    '' @ d)) invalid_defaults st2)"

definition function_def_str :: "FunctionSignature \<Rightarrow> string" where
  "function_def_str sig = ''def '' @ name sig @ ''('' @ args sig @ '') -> '' @ rtype sig @ '': ...''"

text \<open>
  The \<open>try\<close> statement around \<open>ast.parse\<close>. Only \<open>SyntaxError\<close> is caught. The handler
  counts, degrades the signature or keeps it, logs two records and then builds the caret
  line with \<open>e.offset - 1\<close>, which raises \<open>TypeError\<close> when the offset is \<open>None\<close>; the
  counter and the two records stay.
\<close>

definition except_SyntaxError ::
  "FunctionSignature \<Rightarrow> int option \<Rightarrow> state \<Rightarrow> py_error + (FunctionSignature \<times> state)" where
  "except_SyntaxError sig offset st =
     (let st1 = st\<lparr>n_invalid_signatures := n_invalid_signatures st + 1\<rparr>;
          (sig1, lvl, st2) =
            (if signature_downgrade st1
             then
               let lvl = (if ignore_invalid_signature st1 then WARNING else ERROR)
               in (sig\<lparr>args := ''*args, **kwargs'', rtype := ''typing.Any''\<rparr>, lvl,
                   logger_log lvl
                     ''Generated stubs signature is degraded to `(*args, **kwargs) -> typing.Any` for''
                     st1)
             else (sig, WARNING, logger_log WARNING ''Ignoring invalid signature:'' st1));
          st3 = logger_log lvl (function_def_str sig) st2
      in case offset of
           None \<Rightarrow> Inl TypeError
         | Some off \<Rightarrow>
             Inr (sig1, logger_log lvl (replicate (nat (off - 1)) CHR '' '' @ ''^-- Invalid syntax'') st3))"

definition validate_syntax ::
  "externals \<Rightarrow> FunctionSignature \<Rightarrow> state \<Rightarrow> py_error + (FunctionSignature \<times> state)" where
  "validate_syntax ext sig st =
     (case ast_parse ext (function_def_str sig) of
        None \<Rightarrow> Inr (sig, st)
      | Some (SyntaxError offset) \<Rightarrow> except_SyntaxError sig offset st
      | Some NullCharacter \<Rightarrow> Inl ValueError
      | Some TooDeep \<Rightarrow> Inl RecursionError
      | Some OutOfMemory \<Rightarrow> Inl MemoryError)"

text \<open>
  \<open>FunctionSignature.__init__(name, args, rtype, validate)\<close> in two steps: the candidate
  that is assembled (default values replaced; in the Boost.Python dialect the argument
  list rewritten from the constructor's \<open>args\<close> parameter and stored over \<open>self.args\<close>, the
  return type cut at \<open>'' :''\<close>), and its validation.
\<close>

definition assemble ::
  "externals \<Rightarrow> bool \<Rightarrow> string \<Rightarrow> string \<Rightarrow> string \<Rightarrow> py_error + FunctionSignature" where
  "assemble ext boost nm ar rt =
     (let self_args = snd (replace_default_pybind11_repr ar);
          sig = \<lparr>name = nm, args = self_args, rtype = rt\<rparr>
      in if boost
         then
           (case (if ar = [] then Some self_args else boost_args ext ar) of
              None \<Rightarrow> Inl IndexError
            | Some new_args \<Rightarrow> Inr (sig\<lparr>args := new_args, rtype := hd (split rt '' :'')\<rparr>))
         else Inr sig)"

definition FunctionSignature_init ::
  "externals \<Rightarrow> string \<Rightarrow> string \<Rightarrow> string \<Rightarrow> bool \<Rightarrow> state \<Rightarrow>
   py_error + (FunctionSignature \<times> state)" where
  "FunctionSignature_init ext nm ar rt validate st =
     (if \<not> validate then Inr (\<lparr>name = nm, args = ar, rtype = rt\<rparr>, st)
      else
        let st1 = log_invalid_defaults (fst (replace_default_pybind11_repr ar)) st
        in bindE (assemble ext (USE_BOOST_PYTHON st1) nm ar rt)
             (\<lambda>candidate. validate_syntax ext candidate st1))"

text \<open>
  \<open>split_arguments\<close>: the loop over \<open>enumerate(self.args)\<close> with its three variables, the
  two assertions as \<open>AssertionError\<close>.
\<close>

fun split_loop ::
  "string \<Rightarrow> nat \<Rightarrow> string \<Rightarrow> nat \<Rightarrow> int \<Rightarrow> string list \<Rightarrow> py_error + (nat \<times> int \<times> string list)" where
  "split_loop a i [] prev_stop brackets splitted_args = Inr (prev_stop, brackets, splitted_args)"
| "split_loop a i (c # cs) prev_stop brackets splitted_args =
     (if c = CHR ''['' then split_loop a (i + 1) cs prev_stop (brackets + 1) splitted_args
      else if c = CHR '']''
      then (if brackets - 1 \<ge> 0 then split_loop a (i + 1) cs prev_stop (brackets - 1) splitted_args
            else Inl AssertionError)
      else if c = CHR '','' \<and> brackets = 0
      then split_loop a (i + 1) cs (i + 1) brackets
             (splitted_args @ [take (i - prev_stop) (drop prev_stop a)])
      else split_loop a (i + 1) cs prev_stop brackets splitted_args)"

definition split_arguments :: "FunctionSignature \<Rightarrow> py_error + string list" where
  "split_arguments sig =
     (if length (strip (args sig)) = 0 then Inr []
      else
        (case split_loop (args sig) 0 (args sig) 0 0 [] of
           Inl e \<Rightarrow> Inl e
         | Inr (prev_stop, brackets, splitted_args) \<Rightarrow>
             if brackets = 0 then Inr (splitted_args @ [drop prev_stop (args sig)])
             else Inl AssertionError))"

text \<open>\<open>argument_type(arg)\<close> is \<open>arg.split('':'')[-1].strip()\<close>.\<close>

definition argument_type :: "string \<Rightarrow> string" where
  "argument_type arg = strip (last (split arg '':''))"

text \<open>\<^verbatim>\<open>([a-zA-Z_][a-zA-Z0-9_]*(\.[a-zA-Z_][a-zA-Z0-9_]*)*)\<close>\<close>

definition type_name_re :: regex where
  "type_name_re =
     (let first = In [Range CHR ''a'' CHR ''z'', Range CHR ''A'' CHR ''Z'', Single CHR ''_''];
          others = Star (In [Range CHR ''a'' CHR ''z'', Range CHR ''A'' CHR ''Z'',
                             Range CHR ''0'' CHR ''9'', Single CHR ''_''])
      in Group ''1'' (Seqs [first, others, Star (Group ''2'' (Seqs [Lit ''.'', first, others]))]))"

text \<open>
  \<open>get_all_involved_types\<close>: \<open>re.findall\<close> returns the pair of the two groups for every
  match, of which the first is taken.
\<close>

definition get_all_involved_types :: "FunctionSignature \<Rightarrow> py_error + string list" where
  "get_all_involved_types sig =
     bindE (split_arguments sig)
       (\<lambda>splitted.
          Inr (concat (map (\<lambda>t. map (\<lambda>m. group_text m ''1'')
                                      (re_finditer type_name_re (argument_type t)))
                           (rtype sig # splitted))))"

section \<open>\<open>StubsGenerator\<close>: type-name replacements and docstrings\<close>

definition INDENT :: string where
  "INDENT = replicate 4 CHR '' ''"

definition indent_line :: "string \<Rightarrow> string" where
  "indent_line line = INDENT @ line"

definition indent :: "string \<Rightarrow> string" where
  "indent lines = join nl (map (\<lambda>l. if l \<noteq> [] then indent_line l else l) (split lines nl))"

definition brackets :: "citem list" where
  "brackets = [Single CHR ''['', Single CHR '']'']"

text \<open>
  \<^verbatim>\<open>numpy.ndarray\[(?P<type>[^\[\]]+)(\[(?P<shape>[^\[\]]+)\])?(?P<extra>[^][]*)\]\<close>
  (the dot after \<open>numpy\<close> is not escaped in the source).
\<close>

definition numpy_array_re :: regex where
  "numpy_array_re =
     Seqs [Lit ''numpy'', Dot, Lit ''ndarray['',
           Group ''type'' (Plus (NotIn brackets)),
           Opt (Seqs [Lit ''['', Group ''shape'' (Plus (NotIn brackets)), Lit '']'']),
           Group ''extra'' (Star (NotIn brackets)),
           Lit '']'']"

definition numpy_scalar_types :: "string list" where
  "numpy_scalar_types =
     [''int8'', ''int16'', ''int32'', ''int64'', ''float16'', ''float32'', ''float64'',
      ''complex32'', ''complex64'', ''longcomplex'']"

definition replace_numpy_array :: "bool \<Rightarrow> match_obj \<Rightarrow> string" where
  "replace_numpy_array bare match_obj =
     (if bare then ''numpy.ndarray''
      else
        let t = group_text match_obj ''type'';
            numpy_type = (if t \<in> set numpy_scalar_types then ''numpy.'' @ t else t);
            shape = (if truthy (group match_obj ''shape'')
                     then '', _Shape['' @ group_text match_obj ''shape'' @ '']'' else [])
        in ''numpy.ndarray['' @ numpy_type @ shape @ '']'')"

text \<open>
  \<^verbatim>\<open>(?<!\w)(?P<type>Callable|Dict|[Ii]terator|[Ii]terable|List|Optional|Set|Tuple|Union')(?!\w)\<close>
  (the last alternative ends in an apostrophe in the source).
\<close>

definition typing_types_re :: regex where
  "typing_types_re =
     Seqs [NotBehind [Word],
           Group ''type''
             (Alts [Lit ''Callable'', Lit ''Dict'',
                    Seq (In [Single CHR ''I'', Single CHR ''i'']) (Lit ''terator''),
                    Seq (In [Single CHR ''I'', Single CHR ''i'']) (Lit ''terable''),
                    Lit ''List'', Lit ''Optional'', Lit ''Set'', Lit ''Tuple'',
                    Lit (''Union'' @ [CHR 0x27])]),
           NotAhead [Word]]"

definition replace_typing_types :: "match_obj \<Rightarrow> string" where
  "replace_typing_types m = ''typing.'' @ capitalize (group_text m ''type'')"

text \<open>
  \<open>GLOBAL_CLASSNAME_REPLACEMENTS\<close> is a dictionary; its items come in insertion order:
  the array pattern first, the typing pattern second.
\<close>

definition apply_classname_replacements :: "bool \<Rightarrow> string \<Rightarrow> string" where
  "apply_classname_replacements bare s =
     re_sub typing_types_re replace_typing_types
       (re_sub numpy_array_re (replace_numpy_array bare) s)"

definition parens :: "citem list" where
  "parens = [Single CHR ''('', Single CHR '')'']"

definition no_parentheses :: regex where
  "no_parentheses = Star (NotIn parens)"

definition parentheses_fold :: "regex \<Rightarrow> regex" where
  "parentheses_fold inner =
     Star (Seq no_parentheses (Opt (Seqs [Lit ''('', inner, Lit '')''])))"

definition parentheses_three_fold :: regex where
  "parentheses_three_fold =
     parentheses_fold (parentheses_fold (parentheses_fold no_parentheses))"

text \<open>
  \<^verbatim>\<open>(\s*(?P<overload_number>\d+).)?\s*{name}\s*\((?P<args>{balanced_parentheses})\)\s*->\s*(?P<rtype>[^\(\)]+)\s*\<close>
  The member name is pasted into the pattern; it is an identifier, so it stands for
  itself.
\<close>

definition signature_regex :: "string \<Rightarrow> regex" where
  "signature_regex nm =
     Seqs [Opt (Seqs [Star (In [Space]), Group ''overload_number'' (Plus (In [Digit])), Dot]),
           Star (In [Space]), Lit nm, Star (In [Space]), Lit ''('',
           Group ''args'' parentheses_three_fold, Lit '')'',
           Star (In [Space]), Lit ''->'', Star (In [Space]),
           Group ''rtype'' (Plus (NotIn parens)), Star (In [Space])]"

text \<open>\<open>re.sub(module_name\.(\w+), \g<1>, text)\<close>.\<close>

definition strip_module_name :: "string \<Rightarrow> string \<Rightarrow> string" where
  "strip_module_name module_name text =
     re_sub (Seqs [Lit module_name, Lit ''.'', Group ''1'' (Plus (In [Word]))])
            (\<lambda>m. group_text m ''1'') text"

text \<open>The constructor calls of the loop over the lines of the docstring.\<close>

fun signatures_of_lines ::
  "externals \<Rightarrow> string \<Rightarrow> string list \<Rightarrow> state \<Rightarrow> py_error + (FunctionSignature list \<times> state)" where
  "signatures_of_lines ext nm [] st = Inr ([], st)"
| "signatures_of_lines ext nm (line # lines) st =
     (case re_match (signature_regex nm) line of
        None \<Rightarrow> signatures_of_lines ext nm lines st
      | Some m \<Rightarrow>
          bindE (FunctionSignature_init ext nm (group_text m ''args'') (group_text m ''rtype'') True st)
            (\<lambda>(sig, st1).
               bindE (signatures_of_lines ext nm lines st1)
                 (\<lambda>(sigs, st2). Inr (sig # sigs, st2))))"

text \<open>
  \<open>list(set(signatures))\<close>: the distinct signatures in the order of their hashes.
\<close>

definition list_of_set :: "(FunctionSignature \<Rightarrow> nat) \<Rightarrow> FunctionSignature list \<Rightarrow> FunctionSignature list" where
  "list_of_set h sigs = sort_key h (remdups sigs)"

text \<open>
  \<open>function_signatures_from_docstring(name, func, module_name)\<close>; \<open>doc\<close> is
  \<open>func.__doc__\<close>, and a missing docstring is the \<open>AttributeError\<close> the function catches.
\<close>

definition function_signatures_from_docstring ::
  "externals \<Rightarrow> string \<Rightarrow> string option \<Rightarrow> string \<Rightarrow> state \<Rightarrow>
   py_error + (FunctionSignature list \<times> state)" where
  "function_signatures_from_docstring ext nm doc module_name st =
     (case doc of
        None \<Rightarrow> Inr ([], st)
      | Some d \<Rightarrow>
          bindE (signatures_of_lines ext nm (split (fold (\<lambda>hook x. hook x) (hooks ext) d) nl) st)
            (\<lambda>(signatures, st1).
               let stripped =
                     (if module_name \<noteq> []
                      then map (\<lambda>sig. sig\<lparr>args := strip_module_name module_name (args sig),
                                          rtype := strip_module_name module_name (rtype sig)\<rparr>)
                               signatures
                      else signatures);
                   replaced =
                     map (\<lambda>sig. sig\<lparr>args := apply_classname_replacements (BARE_NUPMY_NDARRAY st1) (args sig),
                                     rtype := apply_classname_replacements (BARE_NUPMY_NDARRAY st1) (rtype sig)\<rparr>)
                         stripped
               in Inr (sort_key args (list_of_set (hash ext) replaced), st1)))"

text \<open>
  \<^verbatim>\<open>(\s*(?P<overload_number>\d+).\s*)?\w+\s*\((?P<args>.*)\)\s*(->\s*(?P<rtype>[^\(\)]+)\s*)?\<close>
\<close>

definition remove_signatures_regex :: regex where
  "remove_signatures_regex =
     Seqs [Opt (Seqs [Star (In [Space]), Group ''overload_number'' (Plus (In [Digit])), Dot,
                      Star (In [Space])]),
           Plus (In [Word]), Star (In [Space]), Lit ''('', Group ''args'' (Star Dot), Lit '')'',
           Star (In [Space]),
           Opt (Seqs [Lit ''->'', Star (In [Space]), Group ''rtype'' (Plus (NotIn parens)),
                      Star (In [Space])])]"

definition remove_signatures :: "externals \<Rightarrow> string option \<Rightarrow> string" where
  "remove_signatures ext docstring =
     (case docstring of
        None \<Rightarrow> []
      | Some d \<Rightarrow>
          join (nl @ nl)
            (filter (\<lambda>line. re_match remove_signatures_regex line = None)
               (filter (\<lambda>line. line \<noteq> ''Overloaded function.'')
                  (split (fold (\<lambda>hook x. hook x) (hooks ext) d) (nl @ nl)))))"

definition sanitize_docstring :: "externals \<Rightarrow> string option \<Rightarrow> string" where
  "sanitize_docstring ext docstring =
     (let d = rstrip_chars nl (remove_signatures ext docstring)
      in if d \<noteq> [] \<and> re_match (Seqs [Bol, Star (In [Space]), Eol]) d \<noteq> None then [] else d)"

definition format_docstring :: "string \<Rightarrow> py_error + string" where
  "format_docstring docstring =
     bindE (format (triple_quote @ nl @ ''{}'' @ nl @ triple_quote) [strip_chars nl docstring] [])
       (\<lambda>t. Inr (indent t))"

section \<open>Rendering routines and properties\<close>

text \<open>
  A routine generator holds the member's name, the member's docstring
  (\<open>self.member.__doc__\<close>) and the parsed signatures. The \<open>logger.debug\<close> call of
  \<open>to_lines\<close> does not touch the result and is left out.
\<close>

record FreeFunctionStubsGenerator =
  fn_name :: string
  member_doc :: "string option"
  signatures :: "FunctionSignature list"

text \<open>
  The loop of \<open>FreeFunctionStubsGenerator.to_lines\<close>; \<open>n\<close> is \<open>len(self.signatures)\<close>
  and \<open>docstring\<close> the text still to be printed (\<open>[]\<close> once it has been).
\<close>

fun free_function_lines ::
  "nat \<Rightarrow> string \<Rightarrow> FunctionSignature list \<Rightarrow> py_error + string list" where
  "free_function_lines n docstring [] = Inr []"
| "free_function_lines n docstring (sig # sigs) =
     bindE (format ''def {name}({args}) -> {rtype}:'' []
              [(''name'', name sig), (''args'', args sig), (''rtype'', rtype sig)])
       (\<lambda>def_line.
          bindE (if docstring \<noteq> [] then format_docstring docstring else Inr (indent ''pass''))
            (\<lambda>body.
               bindE (free_function_lines n [] sigs)
                 (\<lambda>lines.
                    Inr ((if n > 1 then [''@typing.overload''] else []) @ [def_line, body] @ lines))))"

definition FreeFunctionStubsGenerator_to_lines ::
  "externals \<Rightarrow> FreeFunctionStubsGenerator \<Rightarrow> py_error + string list" where
  "FreeFunctionStubsGenerator_to_lines ext g =
     free_function_lines (length (signatures g)) (sanitize_docstring ext (member_doc g))
       (signatures g)"

text \<open>The loop of \<open>ClassMemberStubsGenerator.to_lines\<close>.\<close>

fun class_member_lines ::
  "nat \<Rightarrow> string \<Rightarrow> FunctionSignature list \<Rightarrow> py_error + string list" where
  "class_member_lines n docstring [] = Inr []"
| "class_member_lines n docstring (sig # sigs) =
     bindE (if \<not> startswith (strip (args sig)) ''self''
            then Inr ([''@staticmethod''], args sig)
            else bindE (split_arguments sig)
                   (\<lambda>splitted. Inr ([], join '','' ([''self''] @ drop 1 splitted))))
       (\<lambda>(marker, args').
          bindE (format ''def {name}({args}) -> {rtype}: {ellipsis}'' []
                   [(''name'', name sig), (''args'', args'), (''rtype'', rtype sig),
                    (''ellipsis'', if docstring \<noteq> [] then [] else ''...'')])
            (\<lambda>def_line.
               bindE (if docstring \<noteq> [] then bindE (format_docstring docstring) (\<lambda>d. Inr [d])
                      else Inr [])
                 (\<lambda>body.
                    bindE (class_member_lines n [] sigs)
                      (\<lambda>lines.
                         Inr (marker @ (if n > 1 then [''@typing.overload''] else []) @
                              [def_line] @ body @ lines)))))"

definition ClassMemberStubsGenerator_to_lines ::
  "externals \<Rightarrow> FreeFunctionStubsGenerator \<Rightarrow> py_error + string list" where
  "ClassMemberStubsGenerator_to_lines ext g =
     class_member_lines (length (signatures g)) (sanitize_docstring ext (member_doc g))
       (signatures g)"

record PropertySignature =
  getter_rtype :: string
  setter_args :: string
  access_type :: nat

record PropertyStubsGenerator =
  prop_name :: string
  prop_doc :: "string option"
  signature :: PropertySignature

text \<open>\<^verbatim>\<open>(.*)\[returns (.+)\](.*)\<close>\<close>

definition returns_re :: regex where
  "returns_re =
     Seqs [Group ''1'' (Star Dot), Lit ''[returns '', Group ''2'' (Plus Dot), Lit '']'',
           Group ''3'' (Star Dot)]"

text \<open>
  \<open>PropertyStubsGenerator.to_lines\<close>. In the setter block the \<open>def\<close> line is built by
  \<open>''def {field_name}({args}) -> {rtype}:''.format(field_name=..., args=...)\<close>, the
  keyword \<open>rtype\<close> being passed to \<open>result.append\<close> instead; \<open>list.append\<close> takes no
  keyword argument, so the statement raises \<open>TypeError\<close> where \<open>format\<close> does not raise
  before.
\<close>

definition PropertyStubsGenerator_to_lines ::
  "externals \<Rightarrow> PropertyStubsGenerator \<Rightarrow> py_error + string list" where
  "PropertyStubsGenerator_to_lines ext g =
     (let docstring = sanitize_docstring ext (prop_doc g);
          rt = (if getter_rtype (signature g) = ''None''
                then (case re_match returns_re docstring of
                        Some m \<Rightarrow> group_text m ''2''
                      | None \<Rightarrow> getter_rtype (signature g))
                else getter_rtype (signature g))
      in bindE (format '':type: {rtype}'' [] [(''rtype'', rt)])
           (\<lambda>type_line.
              bindE (format ''def {field_name}(self) -> {rtype}:'' []
                       [(''field_name'', prop_name g), (''rtype'', rt)])
                (\<lambda>getter_def.
                   bindE (format_docstring (join (nl @ nl) [docstring, type_line]))
                     (\<lambda>getter_doc.
                        let result = [''@property'', getter_def, getter_doc]
                        in if setter_args (signature g) \<noteq> ''None''
                           then
                             bindE (format (CHR ''@'' # ''{field_name}.setter'') [] [(''field_name'', prop_name g)])
                               (\<lambda>setter_marker.
                                  bindE (format ''def {field_name}({args}) -> {rtype}:'' []
                                           [(''field_name'', prop_name g),
                                            (''args'', setter_args (signature g))])
                                    (\<lambda>setter_def. Inl TypeError))
                           else Inr result))))"

section \<open>Ordering the classes of a module\<close>

text \<open>
  The classes of a module are the \<open>klass\<close> objects of its \<open>ClassStubsGenerator\<close>s; \<open>a is b\<close>
  is equality of the objects and \<open>issubclass\<close> is the relation the interpreter answers.
\<close>

definition class_ordering :: "('k \<Rightarrow> 'k \<Rightarrow> bool) \<Rightarrow> 'k \<Rightarrow> 'k \<Rightarrow> int" where
  "class_ordering issubclass a b =
     (if a = b then 0
      else if issubclass a b then -1
      else if issubclass b a then 1
      else 0)"

definition swap_step :: "('k \<Rightarrow> 'k \<Rightarrow> bool) \<Rightarrow> nat \<Rightarrow> nat \<Rightarrow> 'k list \<Rightarrow> 'k list" where
  "swap_step issubclass i j classes =
     (if class_ordering issubclass (classes ! i) (classes ! j) < 0
      then classes[i := classes ! j, j := classes ! i]
      else classes)"

text \<open>
  \<open>for i in range(len(classes)): for j in range(i + 1, len(classes)): ...\<close>; both index
  ranges stay inside the list.
\<close>

definition reorder_classes :: "('k \<Rightarrow> 'k \<Rightarrow> bool) \<Rightarrow> 'k list \<Rightarrow> 'k list" where
  "reorder_classes issubclass classes =
     fold (\<lambda>i cs. fold (swap_step issubclass i) [i + 1 ..< length cs] cs)
          [0 ..< length classes] classes"

section \<open>Classes and modules\<close>

text \<open>
  The reflection of the interpreter is outside the program. What it reports is given:
  for a class its identity, \<open>__name__\<close>, \<open>__module__\<close>, \<open>__doc__\<close>, the classes of
  \<open>inspect.getmro(klass)[1:]\<close> and the members that \<open>ClassStubsGenerator.parse\<close> keeps (the
  nested classes, the routines with their docstrings, the properties, the other
  attributes), each kind in the order of \<open>inspect.getmembers\<close>; for a module its identity,
  \<open>__name__\<close>, \<open>__doc__\<close>, the names that \<open>from module import *\<close> binds, and the members that
  \<open>ModuleStubsGenerator.parse\<close> keeps (the names of the modules that are no submodules,
  the submodules, the functions with their docstrings, the classes, each with the
  answer to \<open>member.__module__ != self.module.__name__\<close>, the other attributes). For a
  property, \<open>fget_doc\<close> and \<open>fset_doc\<close> are \<open>None\<close> without the accessor and \<open>Some None\<close> for an
  accessor without docstring. For an attribute, the lines are those that
  \<open>AttributeStubsGenerator.to_lines\<close> writes from \<open>repr\<close> of the live value, and the module
  is the only element of its \<open>get_involved_modules_names()\<close>.
\<close>

record base_obj =
  base_handle :: nat
  base_name :: string
  base_module :: string
  base_qualname :: string

record property_obj =
  property_name :: string
  property_doc :: "string option"
  fget_doc :: "string option option"
  fset_doc :: "string option option"

record attribute_obj =
  attribute_name :: string
  attribute_lines :: "string list"
  attribute_module :: string

datatype class_obj = ClassObj
  (klass_handle: nat) (klass_name: string) (klass_module: string)
  (klass_doc: "string option") (klass_mro: "base_obj list")
  (klass_classes: "class_obj list") (klass_routines: "(string \<times> string option) list")
  (klass_properties: "property_obj list") (klass_attributes: "attribute_obj list")

datatype module_obj = ModuleObj
  (mod_handle: nat) (mod_name: string) (mod_doc: "string option")
  (mod_all: "string list") (mod_imported_modules: "string list")
  (mod_submodules: "module_obj list") (mod_functions: "(string \<times> string option) list")
  (mod_classes: "(class_obj \<times> bool) list") (mod_attributes: "attribute_obj list")

text \<open>A function applied to the elements of a list in order, up to the first exception.\<close>

fun mapE :: "('a \<Rightarrow> py_error + 'b) \<Rightarrow> 'a list \<Rightarrow> py_error + 'b list" where
  "mapE f [] = Inr []"
| "mapE f (x # xs) = bindE (f x) (\<lambda>y. bindE (mapE f xs) (\<lambda>ys. Inr (y # ys)))"

subsection \<open>Routines\<close>

definition FreeFunctionStubsGenerator_parse ::
  "externals \<Rightarrow> string \<Rightarrow> string \<times> string option \<Rightarrow> state \<Rightarrow>
   py_error + (FreeFunctionStubsGenerator \<times> state)" where
  "FreeFunctionStubsGenerator_parse ext module_name member st =
     bindE (function_signatures_from_docstring ext (fst member) (snd member) module_name st)
       (\<lambda>(sigs, st1).
          Inr (\<lparr>fn_name = fst member, member_doc = snd member, signatures = sigs\<rparr>, st1))"

fun parse_functions ::
  "externals \<Rightarrow> string \<Rightarrow> (string \<times> string option) list \<Rightarrow> state \<Rightarrow>
   py_error + (FreeFunctionStubsGenerator list \<times> state)" where
  "parse_functions ext module_name [] st = Inr ([], st)"
| "parse_functions ext module_name (member # members) st =
     bindE (FreeFunctionStubsGenerator_parse ext module_name member st)
       (\<lambda>(f, st1).
          bindE (parse_functions ext module_name members st1)
            (\<lambda>(fs, st2). Inr (f # fs, st2)))"

text \<open>
  \<open>FreeFunctionStubsGenerator.get_involved_modules_names\<close>: for every type name \<open>t\<close> with a
  dot, \<open>t[:t.rindex(''.'')]\<close>. The result is a \<open>set\<close>; it is kept as the list of its elements.
\<close>

definition module_of_type :: "string \<Rightarrow> string list" where
  "module_of_type t = (case rindex t CHR ''.'' of Inl e \<Rightarrow> [] | Inr i \<Rightarrow> [take i t])"

definition get_involved_modules_names :: "FreeFunctionStubsGenerator \<Rightarrow> py_error + string list" where
  "get_involved_modules_names f =
     bindE (mapE get_all_involved_types (signatures f))
       (\<lambda>types. Inr (concat (map module_of_type (concat types))))"

subsection \<open>Properties\<close>

text \<open>\<^verbatim>\<open>\s*(\w*)\((?P<args>[^()]*)\)\s*->\s*(?P<rtype>[^()]+)\s*\<close>\<close>

definition property_signature_re :: regex where
  "property_signature_re =
     Seqs [Star (In [Space]), Group ''1'' (Star (In [Word])), Lit ''('',
           Group ''args'' (Star (NotIn parens)), Lit '')'', Star (In [Space]), Lit ''->'',
           Star (In [Space]), Group ''rtype'' (Plus (NotIn parens)), Star (In [Space])]"

text \<open>
  The loop over the lines of an accessor's docstring, up to the \<open>break\<close> at the first line
  that matches once the module name is taken out.
\<close>

fun first_signature_line :: "string \<Rightarrow> string list \<Rightarrow> match_obj option" where
  "first_signature_line module_name [] = None"
| "first_signature_line module_name (line # lines) =
     (case re_match property_signature_re (replace line (module_name @ ''.'') []) of
        Some m \<Rightarrow> Some m
      | None \<Rightarrow> first_signature_line module_name lines)"

definition property_signature_from_docstring ::
  "bool \<Rightarrow> property_obj \<Rightarrow> string \<Rightarrow> PropertySignature" where
  "property_signature_from_docstring bare prop module_name =
     (let rt = (case fget_doc prop of
                  Some (Some d) \<Rightarrow>
                    (case first_signature_line module_name (split d nl) of
                       Some m \<Rightarrow> group_text m ''rtype''
                     | None \<Rightarrow> ''None'')
                | _ \<Rightarrow> ''None'');
          sa = (case fset_doc prop of
                  Some (Some d) \<Rightarrow>
                    (case first_signature_line module_name (split d nl) of
                       Some m \<Rightarrow> join '','' ([''self''] @ drop 1 (split (group_text m ''args'') '',''))
                     | None \<Rightarrow> ''None'')
                | _ \<Rightarrow> ''None'')
      in \<lparr>getter_rtype = apply_classname_replacements bare rt,
          setter_args = apply_classname_replacements bare sa,
          access_type = (if fget_doc prop \<noteq> None then 1 else 0) +
                        (if fset_doc prop \<noteq> None then 2 else 0)\<rparr>)"

definition PropertyStubsGenerator_parse ::
  "bool \<Rightarrow> string \<Rightarrow> property_obj \<Rightarrow> PropertyStubsGenerator" where
  "PropertyStubsGenerator_parse bare module_name prop =
     \<lparr>prop_name = property_name prop, prop_doc = property_doc prop,
      signature = property_signature_from_docstring bare prop module_name\<rparr>"

subsection \<open>Classes\<close>

text \<open>
  A \<open>ClassStubsGenerator\<close> with the attributes that \<open>__init__\<close> sets and \<open>parse\<close> fills. The
  members are classified after the test of \<open>_visited_objects\<close>, so the generator of a
  class that was visited before stays empty. \<open>AttributeStubsGenerator.parse\<close> adds the
  generator itself to \<open>_visited_objects\<close>, where it is equal to no module and no class;
  these entries are left out.
\<close>

datatype ClassStubsGenerator = ClassStubsGenerator
  (klass: class_obj) (class_doc_string: "string option")
  (class_classes: "ClassStubsGenerator list") (class_fields: "attribute_obj list")
  (class_properties: "PropertyStubsGenerator list")
  (class_methods: "FreeFunctionStubsGenerator list")
  (class_base_classes: "base_obj list") (class_involved_modules_names: "string list")

definition BASE_CLASS_BLACKLIST :: "string list" where
  "BASE_CLASS_BLACKLIST = [''pybind11_object'', ''object'']"

definition METHODS_BLACKLIST :: "string list" where
  "METHODS_BLACKLIST = [''__dir__'', ''__sizeof__'']"

fun ClassStubsGenerator_parse ::
  "externals \<Rightarrow> class_obj \<Rightarrow> state \<Rightarrow> py_error + (ClassStubsGenerator \<times> state)"
and parse_classes ::
  "externals \<Rightarrow> class_obj list \<Rightarrow> state \<Rightarrow> py_error + (ClassStubsGenerator list \<times> state)" where
  "ClassStubsGenerator_parse ext (ClassObj h nm md doc mro cls rts props attrs) st =
     (if h \<in> set (visited_objects st)
      then Inr (ClassStubsGenerator (ClassObj h nm md doc mro cls rts props attrs)
                  None [] [] [] [] [] [], st)
      else
        bindE (parse_classes ext cls (st\<lparr>visited_objects := visited_objects st @ [h]\<rparr>))
          (\<lambda>(nested, st1).
             bindE (parse_functions ext md rts st1)
               (\<lambda>(members, st2).
                  let bases = filter (\<lambda>B. base_name B \<noteq> nm \<and>
                                          base_name B \<notin> set BASE_CLASS_BLACKLIST) mro
                  in bindE (mapE get_involved_modules_names members)
                       (\<lambda>involved.
                          Inr (ClassStubsGenerator (ClassObj h nm md doc mro cls rts props attrs)
                                 doc nested attrs
                                 (map (PropertyStubsGenerator_parse (BARE_NUPMY_NDARRAY st2) md) props)
                                 members bases
                                 (map base_module bases @ concat involved @
                                  map attribute_module attrs),
                               st2)))))"
| "parse_classes ext [] st = Inr ([], st)"
| "parse_classes ext (c # cs) st =
     bindE (ClassStubsGenerator_parse ext c st)
       (\<lambda>(g, st1). bindE (parse_classes ext cs st1) (\<lambda>(gs, st2). Inr (g # gs, st2)))"

text \<open>
  \<open>fully_qualified_name\<close> of a base class and \<open>strip_current_module_name\<close>, which is
  \<open>strip_module_name\<close> with the module of the class. The templates \<open>''{module}.{klass}''\<close> and
  \<open>''import {}''\<close> get all their arguments and are written as concatenations.
\<close>

definition fully_qualified_name :: "base_obj \<Rightarrow> string" where
  "fully_qualified_name b =
     (if base_module b = ''builtins'' then base_qualname b
      else base_module b @ ''.'' @ base_qualname b)"

fun ClassStubsGenerator_to_lines :: "externals \<Rightarrow> ClassStubsGenerator \<Rightarrow> py_error + string list"
and classes_to_lines :: "externals \<Rightarrow> ClassStubsGenerator list \<Rightarrow> py_error + string list list" where
  "ClassStubsGenerator_to_lines ext (ClassStubsGenerator k doc nested attrs props members bases involved) =
     bindE (case doc of
              None \<Rightarrow> Inr []
            | Some d \<Rightarrow> if d \<noteq> [] then bindE (format_docstring d) (\<lambda>t. Inr (nl @ t)) else Inr [])
       (\<lambda>doc_text.
          bindE (format ''class {class_name}({base_classes_list}):{doc_string}'' []
                   [(''class_name'', klass_name k),
                    (''base_classes_list'',
                     join '', '' (map (\<lambda>b. strip_module_name (klass_module k) (fully_qualified_name b))
                                      bases)),
                    (''doc_string'', doc_text)])
            (\<lambda>header.
               bindE (classes_to_lines ext nested)
                 (\<lambda>nested_lines.
                    bindE (mapE (ClassMemberStubsGenerator_to_lines ext)
                             (filter (\<lambda>f. fn_name f \<notin> set METHODS_BLACKLIST) members))
                      (\<lambda>method_lines.
                         bindE (mapE (PropertyStubsGenerator_to_lines ext) props)
                           (\<lambda>property_lines.
                              Inr ([header] @
                                   map indent (concat nested_lines) @
                                   map indent (concat method_lines) @
                                   map indent (concat property_lines) @
                                   map indent (concat (map attribute_lines attrs)) @
                                   [indent ''pass'']))))))"
| "classes_to_lines ext [] = Inr []"
| "classes_to_lines ext (g # gs) =
     bindE (ClassStubsGenerator_to_lines ext g)
       (\<lambda>ls. bindE (classes_to_lines ext gs) (\<lambda>lss. Inr (ls # lss)))"

subsection \<open>Modules\<close>

text \<open>
  The classes of a module are reordered by \<open>class_ordering\<close> on the \<open>klass\<close> objects of the
  generators, \<open>a.klass is b.klass\<close> being equality of the identities; \<open>issubclass(a, b)\<close> holds
  when \<open>b\<close> is \<open>a\<close> or one of the classes of \<open>inspect.getmro(a)\<close>.
\<close>

definition is_subclass :: "class_obj \<Rightarrow> class_obj \<Rightarrow> bool" where
  "is_subclass a b =
     (klass_handle b = klass_handle a \<or> klass_handle b \<in> set (map base_handle (klass_mro a)))"

definition generator_ordering :: "ClassStubsGenerator \<Rightarrow> ClassStubsGenerator \<Rightarrow> int" where
  "generator_ordering a b =
     (if klass_handle (klass a) = klass_handle (klass b) then 0
      else if is_subclass (klass a) (klass b) then -1
      else if is_subclass (klass b) (klass a) then 1
      else 0)"

definition swap_generators ::
  "nat \<Rightarrow> nat \<Rightarrow> ClassStubsGenerator list \<Rightarrow> ClassStubsGenerator list" where
  "swap_generators i j gs =
     (if generator_ordering (gs ! i) (gs ! j) < 0 then gs[i := gs ! j, j := gs ! i] else gs)"

definition reorder_generators :: "ClassStubsGenerator list \<Rightarrow> ClassStubsGenerator list" where
  "reorder_generators gs =
     fold (\<lambda>i gs. fold (swap_generators i) [i + 1 ..< length gs] gs) [0 ..< length gs] gs"

datatype ModuleStubsGenerator = ModuleStubsGenerator
  (module_obj_of: module_obj) (module_doc_string: "string option")
  (module_classes: "ClassStubsGenerator list")
  (module_free_functions: "FreeFunctionStubsGenerator list")
  (module_submodules: "ModuleStubsGenerator list")
  (module_imported_modules: "string list") (module_attributes: "attribute_obj list")

text \<open>
  The loop over the members appends the generator of a class and, for a class declared
  in another module, calls its \<open>parse\<close> at once; the classes of the module itself are
  parsed after the submodules. A second \<open>parse\<close> of a generator finds its class visited
  and returns.
\<close>

fun parse_imported_classes ::
  "externals \<Rightarrow> (class_obj \<times> bool) list \<Rightarrow> state \<Rightarrow>
   py_error + (ClassStubsGenerator option list \<times> state)" where
  "parse_imported_classes ext [] st = Inr ([], st)"
| "parse_imported_classes ext ((c, elsewhere) # cs) st =
     (if elsewhere
      then bindE (ClassStubsGenerator_parse ext c st)
             (\<lambda>(g, st1).
                bindE (parse_imported_classes ext cs st1) (\<lambda>(gs, st2). Inr (Some g # gs, st2)))
      else bindE (parse_imported_classes ext cs st) (\<lambda>(gs, st1). Inr (None # gs, st1)))"

fun parse_own_classes ::
  "externals \<Rightarrow> ((class_obj \<times> bool) \<times> ClassStubsGenerator option) list \<Rightarrow> state \<Rightarrow>
   py_error + (ClassStubsGenerator list \<times> state)" where
  "parse_own_classes ext [] st = Inr ([], st)"
| "parse_own_classes ext (((c, elsewhere), Some g) # cs) st =
     bindE (parse_own_classes ext cs st) (\<lambda>(gs, st1). Inr (g # gs, st1))"
| "parse_own_classes ext (((c, elsewhere), None) # cs) st =
     bindE (ClassStubsGenerator_parse ext c st)
       (\<lambda>(g, st1). bindE (parse_own_classes ext cs st1) (\<lambda>(gs, st2). Inr (g # gs, st2)))"

fun ModuleStubsGenerator_parse ::
  "externals \<Rightarrow> module_obj \<Rightarrow> state \<Rightarrow> py_error + (ModuleStubsGenerator \<times> state)"
and parse_modules ::
  "externals \<Rightarrow> module_obj list \<Rightarrow> state \<Rightarrow> py_error + (ModuleStubsGenerator list \<times> state)" where
  "ModuleStubsGenerator_parse ext (ModuleObj h nm doc exported imported subs fns cls attrs) st =
     (if h \<in> set (visited_objects st)
      then Inr (ModuleStubsGenerator (ModuleObj h nm doc exported imported subs fns cls attrs)
                  None [] [] [] [] [], st)
      else
        bindE (parse_imported_classes ext cls (st\<lparr>visited_objects := visited_objects st @ [h]\<rparr>))
          (\<lambda>(early, st1).
             bindE (parse_modules ext subs st1)
               (\<lambda>(submodules, st2).
                  bindE (parse_own_classes ext (zip cls early) st2)
                    (\<lambda>(generators, st3).
                       bindE (parse_functions ext nm fns st3)
                         (\<lambda>(functions, st4).
                            Inr (ModuleStubsGenerator
                                   (ModuleObj h nm doc exported imported subs fns cls attrs)
                                   doc (reorder_generators generators) functions submodules
                                   imported attrs,
                                 st4))))))"
| "parse_modules ext [] st = Inr ([], st)"
| "parse_modules ext (m # ms) st =
     bindE (ModuleStubsGenerator_parse ext m st)
       (\<lambda>(g, st1). bindE (parse_modules ext ms st1) (\<lambda>(gs, st2). Inr (g # gs, st2)))"

text \<open>
  \<open>ModuleStubsGenerator.get_involved_modules_names\<close>. The names of a class were collected
  when it was parsed; those of the free functions are computed here.
\<close>

definition module_involved_modules_names :: "ModuleStubsGenerator \<Rightarrow> py_error + string list" where
  "module_involved_modules_names g =
     bindE (mapE get_involved_modules_names (module_free_functions g))
       (\<lambda>involved.
          Inr (filter (\<lambda>n. n \<notin> {''builtins'', ''typing'', mod_name (module_obj_of g)})
                 (module_imported_modules g @ map attribute_module (module_attributes g) @
                  concat (map class_involved_modules_names (module_classes g)) @
                  concat involved)))"

definition double_quote :: string where
  "double_quote = [CHR 0x22]"

definition escaped_triple_quote :: string where
  "escaped_triple_quote = [CHR 0x5C, CHR 0x22, CHR 0x5C, CHR 0x22, CHR 0x5C, CHR 0x22]"

text \<open>\<open>ModuleStubsGenerator.to_lines\<close>; \<open>bare\<close> is the global \<open>BARE_NUPMY_NDARRAY\<close>.\<close>

definition ModuleStubsGenerator_to_lines ::
  "externals \<Rightarrow> bool \<Rightarrow> ModuleStubsGenerator \<Rightarrow> py_error + string list" where
  "ModuleStubsGenerator_to_lines ext bare g =
     (let all_names = sort (remdups (filter (\<lambda>n. n \<noteq> ''__builtins__'') (mod_all (module_obj_of g))))
      in bindE (classes_to_lines ext (module_classes g))
           (\<lambda>class_lines.
              bindE (mapE (FreeFunctionStubsGenerator_to_lines ext) (module_free_functions g))
                (\<lambda>function_lines.
                   bindE (module_involved_modules_names g)
                     (\<lambda>involved.
                        let used_modules = sort (remdups involved)
                        in Inr ((case module_doc_string g of
                                   None \<Rightarrow> []
                                 | Some d \<Rightarrow>
                                     if d \<noteq> []
                                     then [triple_quote @ replace d triple_quote escaped_triple_quote @
                                           triple_quote]
                                     else []) @
                                [''import '' @ mod_name (module_obj_of g), ''import typing'', [],
                                 ''__all__ = ['' @ nl @ ''    '' @
                                 join ('','' @ nl @ ''    '')
                                   (map (\<lambda>n. double_quote @ n @ double_quote) all_names) @
                                 nl @ '']'' @ nl] @
                                concat (map (\<lambda>ls. ls @ [[]]) (class_lines @ function_lines)) @
                                concat (map attribute_lines (module_attributes g)) @
                                map (\<lambda>n. ''import '' @ n) used_modules @
                                (if ''numpy'' \<in> set used_modules \<and> \<not> bare
                                 then [''_Shape = typing.Tuple[int, ...]''] else []) @
                                [[], []])))))"

text \<open>
  \<open>ModuleStubsGenerator.write\<close>: the text of \<open>__init__.pyi\<close> for the module, then for its
  submodules. The directories and \<open>setup.py\<close> belong to the file system; what is kept is
  the list of the files written, each with the name of its module.
\<close>

fun ModuleStubsGenerator_write ::
  "externals \<Rightarrow> bool \<Rightarrow> ModuleStubsGenerator \<Rightarrow> py_error + (string \<times> string) list"
and write_modules ::
  "externals \<Rightarrow> bool \<Rightarrow> ModuleStubsGenerator list \<Rightarrow> py_error + (string \<times> string) list" where
  "ModuleStubsGenerator_write ext bare (ModuleStubsGenerator m doc cls fns subs imported attrs) =
     bindE (ModuleStubsGenerator_to_lines ext bare
              (ModuleStubsGenerator m doc cls fns subs imported attrs))
       (\<lambda>file_lines.
          bindE (write_modules ext bare subs)
            (\<lambda>files. Inr ((mod_name m, join nl file_lines) # files)))"
| "write_modules ext bare [] = Inr []"
| "write_modules ext bare (g # gs) =
     bindE (ModuleStubsGenerator_write ext bare g)
       (\<lambda>files. bindE (write_modules ext bare gs) (\<lambda>more. Inr (files @ more)))"

section \<open>\<open>main\<close>\<close>

text \<open>
  The command line after \<open>parse_args\<close>; a requested root module stands by what
  \<open>importlib.import_module\<close> of its name returns.
\<close>

record sys_args =
  non_stop :: bool
  ignore_invalid :: "string list"
  skip_signature_downgrade :: bool
  bare_numpy_ndarray :: bool
  boost_python :: bool
  module_names :: "module_obj list"

definition set_flags :: "sys_args \<Rightarrow> state \<Rightarrow> state" where
  "set_flags a st =
     (let ignore = (if non_stop a then [''all''] else ignore_invalid a);
          st1 = (if bare_numpy_ndarray a then st\<lparr>BARE_NUPMY_NDARRAY := True\<rparr> else st);
          st2 = (if boost_python a then st1\<lparr>USE_BOOST_PYTHON := True\<rparr> else st1);
          st3 = (if ''all'' \<in> set ignore
                 then st2\<lparr>ignore_invalid_signature := True, ignore_invalid_defaultarg := True\<rparr>
                 else
                   let s1 = (if ''signature'' \<in> set ignore
                             then st2\<lparr>ignore_invalid_signature := True\<rparr> else st2)
                   in (if ''defaultarg'' \<in> set ignore
                       then s1\<lparr>ignore_invalid_defaultarg := True\<rparr> else s1))
      in if skip_signature_downgrade a then st3\<lparr>signature_downgrade := False\<rparr> else st3)"

text \<open>
  The loop over the requested roots. It carries the state and the output written so
  far: for every root that was written, its name and its files. An exception of
  \<open>parse\<close> or \<open>write\<close> leaves the loop and \<open>main\<close>.
\<close>

type_synonym stubs = "(string \<times> (string \<times> string) list) list"

fun main_loop ::
  "externals \<Rightarrow> module_obj list \<Rightarrow> state \<times> stubs \<Rightarrow> py_error + (state \<times> stubs)" where
  "main_loop ext [] (st, out) = Inr (st, out)"
| "main_loop ext (m # ms) (st, out) =
     bindE (ModuleStubsGenerator_parse ext m st)
       (\<lambda>(g, st1).
          if n_fatal_errors st1 = 0
          then bindE (ModuleStubsGenerator_write ext (BARE_NUPMY_NDARRAY st1) g)
                 (\<lambda>files. main_loop ext ms (st1, out @ [(mod_name m, files)]))
          else main_loop ext ms (st1, out))"

definition log_useful_links :: "state \<Rightarrow> state" where
  "log_useful_links st =
     (let st1 = (if n_invalid_signatures st > 0
                 then logger_log INFO
                        (''      https://pybind11.readthedocs.io/en/latest/advanced/misc.html'' @
                         ''#avoiding-cpp-types-in-docstrings'')
                        (logger_log INFO ''Useful link: Avoiding C++ types in docstrings:'' st)
                 else st)
      in if n_invalid_default_values st1 > 0
         then logger_log INFO
                (''      https://pybind11.readthedocs.io/en/latest/advanced/functions.html'' @
                 ''#default-arguments-revisited'')
                (logger_log INFO ''Useful link: Default argument representation:'' st1)
         else st1)"

text \<open>
  \<open>main\<close> returns the exit status (\<open>1\<close> for \<open>exit(1)\<close>, \<open>0\<close> otherwise), the final state and
  the output.
\<close>

definition main :: "externals \<Rightarrow> sys_args \<Rightarrow> state \<Rightarrow> py_error + (nat \<times> state \<times> stubs)" where
  "main ext a st =
     bindE (main_loop ext (module_names a) (set_flags a st, []))
       (\<lambda>(st1, out).
          let st2 = log_useful_links st1
          in Inr (if n_fatal_errors st2 > 0 then 1 else 0, st2, out))"

section \<open>Vocabulary of the properties\<close>

text \<open>
  \<open>fatal_after ext ms st\<close> is the fatal count the loop of \<open>main\<close> has reached once the
  roots \<open>ms\<close> have been processed from the state \<open>st\<close>; \<open>written_indices\<close> are the
  positions of the roots after which that count is zero.
\<close>

definition fatal_after :: "externals \<Rightarrow> module_obj list \<Rightarrow> state \<Rightarrow> nat" where
  "fatal_after ext ms st =
     (case main_loop ext ms (st, []) of Inl e \<Rightarrow> 0 | Inr (s, out) \<Rightarrow> n_fatal_errors s)"

definition written_indices :: "externals \<Rightarrow> module_obj list \<Rightarrow> state \<Rightarrow> nat list" where
  "written_indices ext ms st =
     filter (\<lambda>i. fatal_after ext (take (Suc i) ms) st = 0) [0 ..< length ms]"

text \<open>
  \<open>grows st st'\<close>: the switches are those of \<open>st\<close>, the visited objects and the two
  counters have not shrunk.
\<close>

definition grows :: "state \<Rightarrow> state \<Rightarrow> bool" where
  "grows st st' =
     (ignore_invalid_signature st' = ignore_invalid_signature st \<and>
      ignore_invalid_defaultarg st' = ignore_invalid_defaultarg st \<and>
      signature_downgrade st' = signature_downgrade st \<and>
      BARE_NUPMY_NDARRAY st' = BARE_NUPMY_NDARRAY st \<and>
      USE_BOOST_PYTHON st' = USE_BOOST_PYTHON st \<and>
      set (visited_objects st) \<subseteq> set (visited_objects st') \<and>
      n_invalid_default_values st \<le> n_invalid_default_values st' \<and>
      n_invalid_signatures st \<le> n_invalid_signatures st')"

text \<open>
  The outcome of a failed validation: the \<open>degraded\<close> form of a candidate, the three
  records that are logged for it, and the form in which a signature that the constructor
  returned stands in the list of the member (\<open>listed\<close>: the name of the module stripped,
  then the type names replaced).
\<close>

definition degraded :: "FunctionSignature \<Rightarrow> FunctionSignature" where
  "degraded sig = sig\<lparr>args := ''*args, **kwargs'', rtype := ''typing.Any''\<rparr>"

definition invalid_signature_records ::
  "state \<Rightarrow> FunctionSignature \<Rightarrow> int \<Rightarrow> (level \<times> string) list" where
  "invalid_signature_records st cand offset =
     (let lvl = (if signature_downgrade st \<and> \<not> ignore_invalid_signature st then ERROR else WARNING)
      in [(lvl, if signature_downgrade st
                then ''Generated stubs signature is degraded to `(*args, **kwargs) -> typing.Any` for''
                else ''Ignoring invalid signature:''),
          (lvl, function_def_str cand),
          (lvl, replicate (nat (offset - 1)) CHR '' '' @ ''^-- Invalid syntax'')])"

definition listed :: "string \<Rightarrow> bool \<Rightarrow> FunctionSignature \<Rightarrow> FunctionSignature" where
  "listed module_name bare sig =
     (let s = (if module_name \<noteq> []
               then sig\<lparr>args := strip_module_name module_name (args sig),
                        rtype := strip_module_name module_name (rtype sig)\<rparr>
               else sig)
      in s\<lparr>args := apply_classname_replacements bare (args s),
            rtype := apply_classname_replacements bare (rtype s)\<rparr>)"

section \<open>Example inputs\<close>

text \<open>
  Two stand-ins for \<open>ast.parse\<close>: one that accepts every declaration, and one that
  rejects \<open>def f(a: std::vector<int>) -> int: ...\<close> with a \<open>SyntaxError\<close> at offset 13, as
  CPython does, and accepts everything else. Two root modules: one whose only routine
  has an object representation as a default value, one whose only routine is clean.
\<close>

definition accept_all :: externals where
  "accept_all = \<lparr>ast_parse = (\<lambda>s. None), boost_args = (\<lambda>s. None), hooks = [], hash = (\<lambda>s. 0)\<rparr>"

definition reject_scope :: externals where
  "reject_scope =
     \<lparr>ast_parse = (\<lambda>s. if s = ''def f(a: std::vector<int>) -> int: ...''
                          then Some (SyntaxError (Some 13)) else None),
      boost_args = (\<lambda>s. None), hooks = [], hash = (\<lambda>s. 0)\<rparr>"

definition bad_root :: module_obj where
  "bad_root =
     ModuleObj 1 ''bad'' None [''f''] [] []
       [(''f'', Some ''f(a: MyClass = <MyClass object at 0x7fAB1020>) -> None'')] [] []"

definition clean_root :: module_obj where
  "clean_root = ModuleObj 2 ''clean'' None [''g''] [] [] [(''g'', Some ''g(a: int) -> int'')] [] []"

definition two_roots :: sys_args where
  "two_roots = \<lparr>non_stop = False, ignore_invalid = [], skip_signature_downgrade = False,
      bare_numpy_ndarray = False, boost_python = False, module_names = [bad_root, clean_root]\<rparr>"

text \<open>
  Two more roots, each with one class: one with a property whose setter has a
  docstring, one with a method whose docstring has a bracket as a default value,
  \<open>f(self: q.C, a: str = '[') -> None\<close>; and the command line that requests given roots
  with no option.
\<close>

definition setter_root :: module_obj where
  "setter_root =
     ModuleObj 3 ''p'' None [''C''] [] [] []
       [(ClassObj 4 ''C'' ''p'' None [] [] []
           [\<lparr>property_name = ''x'', property_doc = None,
             fget_doc = Some (Some ''(self: p.C) -> int''),
             fset_doc = Some (Some ''(self: p.C, arg0: int) -> None'')\<rparr>] [], False)] []"

definition bracket_root :: module_obj where
  "bracket_root =
     ModuleObj 5 ''q'' None [''C''] [] [] []
       [(ClassObj 6 ''C'' ''q'' None [] []
           [(''f'', Some (''f(self: q.C, a: str = '' @ [CHR 0x27, CHR ''['', CHR 0x27] @ '') -> None''))]
           [] [], False)] []"

definition run_of :: "module_obj list \<Rightarrow> sys_args" where
  "run_of ms = \<lparr>non_stop = False, ignore_invalid = [], skip_signature_downgrade = False,
      bare_numpy_ndarray = False, boost_python = False, module_names = ms\<rparr>"

text \<open>
  Square brackets: \<open>depth_after d s\<close> is the nesting depth after the text \<open>s\<close>, read from
  depth \<open>d\<close>, and \<open>None\<close> when a closing bracket has no opening one; \<open>balanced\<close> text
  returns to depth zero. \<open>top_level_commas d s\<close> counts the commas of \<open>s\<close> outside all
  brackets. \<open>split_ref\<close> splits a text at these commas, without indices: \<open>cur\<close> is the
  segment read so far. \<open>split_result\<close> is the end of \<open>split_arguments\<close> after its loop.
\<close>

fun depth_after :: "int \<Rightarrow> string \<Rightarrow> int option" where
  "depth_after d [] = Some d"
| "depth_after d (c # cs) =
     (if c = CHR ''['' then depth_after (d + 1) cs
      else if c = CHR '']'' then (if d - 1 \<ge> 0 then depth_after (d - 1) cs else None)
      else depth_after d cs)"

definition balanced :: "string \<Rightarrow> bool" where
  "balanced s = (depth_after 0 s = Some 0)"

fun top_level_commas :: "int \<Rightarrow> string \<Rightarrow> nat" where
  "top_level_commas d [] = 0"
| "top_level_commas d (c # cs) =
     (if c = CHR ''['' then top_level_commas (d + 1) cs
      else if c = CHR '']'' then top_level_commas (d - 1) cs
      else if c = CHR '','' \<and> d = 0 then Suc (top_level_commas d cs)
      else top_level_commas d cs)"

fun split_ref :: "int \<Rightarrow> string \<Rightarrow> string \<Rightarrow> string list option" where
  "split_ref d cur [] = (if d = 0 then Some [cur] else None)"
| "split_ref d cur (c # cs) =
     (if c = CHR ''['' then split_ref (d + 1) (cur @ [c]) cs
      else if c = CHR '']'' then (if d - 1 \<ge> 0 then split_ref (d - 1) (cur @ [c]) cs else None)
      else if c = CHR '','' \<and> d = 0 then map_option (Cons cur) (split_ref d [] cs)
      else split_ref d (cur @ [c]) cs)"

definition split_result :: "string \<Rightarrow> py_error + (nat \<times> int \<times> string list) \<Rightarrow> string list option" where
  "split_result a r =
     (case r of Inl e \<Rightarrow> None
      | Inr (p, d, acc) \<Rightarrow> if d = 0 then Some (acc @ [drop p a]) else None)"

text \<open>
  Classes: \<open>strict_subclass issubclass a b\<close> says that \<open>b\<close> is a strict ancestor of \<open>a\<close>.
  \<open>ancestors_first issubclass k cs\<close> says that none of the first \<open>k\<close> classes of \<open>cs\<close> is a
  strict subclass of a class after it, and \<open>scanned issubclass i k cs\<close> that the class at
  \<open>i\<close> is not a strict subclass of one between \<open>i\<close> and \<open>k\<close>. \<open>partial_order\<close> is what the
  interpreter's \<open>issubclass\<close> satisfies: it is transitive and antisymmetric.
  \<open>inner_loop\<close> and \<open>outer_loop\<close> are the two loops of the reordering, cut at \<open>k\<close>.
\<close>

definition strict_subclass :: "('k \<Rightarrow> 'k \<Rightarrow> bool) \<Rightarrow> 'k \<Rightarrow> 'k \<Rightarrow> bool" where
  "strict_subclass issubclass a b = (a \<noteq> b \<and> issubclass a b)"

definition ancestors_first :: "('k \<Rightarrow> 'k \<Rightarrow> bool) \<Rightarrow> nat \<Rightarrow> 'k list \<Rightarrow> bool" where
  "ancestors_first issubclass k cs =
     (\<forall>p q. p < k \<and> p < q \<and> q < length cs \<longrightarrow> \<not> strict_subclass issubclass (cs ! p) (cs ! q))"

definition partial_order :: "('k \<Rightarrow> 'k \<Rightarrow> bool) \<Rightarrow> bool" where
  "partial_order issubclass =
     ((\<forall>a b c. issubclass a b \<longrightarrow> issubclass b c \<longrightarrow> issubclass a c) \<and>
      (\<forall>a b. issubclass a b \<longrightarrow> issubclass b a \<longrightarrow> a = b))"

definition scanned :: "('k \<Rightarrow> 'k \<Rightarrow> bool) \<Rightarrow> nat \<Rightarrow> nat \<Rightarrow> 'k list \<Rightarrow> bool" where
  "scanned issubclass i k cs =
     (\<forall>j. i < j \<and> j < k \<longrightarrow> \<not> strict_subclass issubclass (cs ! i) (cs ! j))"

definition inner_loop :: "('k \<Rightarrow> 'k \<Rightarrow> bool) \<Rightarrow> nat \<Rightarrow> nat \<Rightarrow> 'k list \<Rightarrow> 'k list" where
  "inner_loop issubclass i k cs = fold (swap_step issubclass i) [i + 1 ..< k] cs"

definition outer_loop :: "('k \<Rightarrow> 'k \<Rightarrow> bool) \<Rightarrow> nat \<Rightarrow> 'k list \<Rightarrow> 'k list" where
  "outer_loop issubclass k cs =
     fold (\<lambda>i cs. fold (swap_step issubclass i) [i + 1 ..< length cs] cs) [0 ..< k] cs"

text \<open>An example hierarchy: \<open>A\<close> derives from \<open>B\<close>, and both from \<open>object\<close>.\<close>

definition example_issubclass :: "string \<Rightarrow> string \<Rightarrow> bool" where
  "example_issubclass a b =
     (a = b \<or> (a = ''A'' \<and> b = ''B'') \<or> (a = ''A'' \<and> b = ''object'') \<or>
      (a = ''B'' \<and> b = ''object''))"

text \<open>A docstring with two overloads.\<close>

definition overloads_doc :: string where
  "overloads_doc = ''1. f(a: int) -> int'' @ nl @ ''2. f(a: float) -> float''"

text \<open>
  Matching: \<open>match_at r p s\<close> is the first match of \<open>r\<close> at the start of the text \<open>s\<close> that
  follows the character \<open>p\<close>, with the text left after it; \<open>sub_from\<close> and \<open>matches_from\<close>
  are substitution and match collection on such a text. A pattern with \<open>no_lookbehind\<close>
  never looks at the character before the position; \<open>same_text\<close> relates two matcher
  states that differ in that character only.
\<close>

fun no_lookbehind :: "regex \<Rightarrow> bool" where
  "no_lookbehind (Seq a b) = (no_lookbehind a \<and> no_lookbehind b)"
| "no_lookbehind (Alt a b) = (no_lookbehind a \<and> no_lookbehind b)"
| "no_lookbehind (Opt a) = no_lookbehind a"
| "no_lookbehind (Star a) = no_lookbehind a"
| "no_lookbehind (Group n a) = no_lookbehind a"
| "no_lookbehind (NotBehind cs) = False"
| "no_lookbehind Bol = False"
| "no_lookbehind r = True"

definition same_text :: "mstate \<Rightarrow> mstate \<Rightarrow> bool" where
  "same_text m1 m2 = (rest m1 = rest m2 \<and> groups m1 = groups m2)"

definition match_at :: "regex \<Rightarrow> char option \<Rightarrow> string \<Rightarrow> (string \<times> match_obj) option" where
  "match_at r p s =
     match r (\<lambda>m'. Some (rest m', match_obj_of s m')) \<lparr>prev = p, rest = s, groups = []\<rparr>"

definition sub_from :: "regex \<Rightarrow> (match_obj \<Rightarrow> string) \<Rightarrow> char option \<Rightarrow> string \<Rightarrow> string" where
  "sub_from r f p s = concat (map (case_sum (\<lambda>c. [c]) f) (re_scan_from r False p s))"

definition matches_from :: "regex \<Rightarrow> char option \<Rightarrow> string \<Rightarrow> match_obj list" where
  "matches_from r p s = concat (map (case_sum (\<lambda>c. []) (\<lambda>m. [m])) (re_scan_from r False p s))"

text \<open>
  The textual representation of an object, \<open><Name object at 0x...>\<close>, where \<open>Name\<close> is a
  dotted name and the address is a hexadecimal number.
\<close>

definition is_identifier :: "string \<Rightarrow> bool" where
  "is_identifier w = (w \<noteq> [] \<and> list_all is_word w)"

definition qualified_name :: "string \<Rightarrow> string list \<Rightarrow> string" where
  "qualified_name w ws = w @ concat (map ((#) CHR ''.'') ws)"

definition hex_number :: "string \<Rightarrow> bool" where
  "hex_number h = (h \<noteq> [] \<and> list_all (in_class hex_digit) h)"

definition object_repr :: "string \<Rightarrow> string \<Rightarrow> string" where
  "object_repr cls address = ''<'' @ cls @ '' object at 0x'' @ address @ ''>''"

section \<open>Evaluation of the text primitives\<close>

lemmas char_class_defs = is_word_def is_digit_def is_space_def in_class_def

lemmas engine_defs = capture_def step_def Plus_def match_obj_of_def re_sub_def re_scan_def
  re_finditer_def re_match_def group_def group_text_def truthy_def

lemma format_type_line:
  "format '':type: {rtype}'' [] [(''rtype'', rt)] = Inr ('':type: '' @ rt)"
  by (simp add: format_def field_value_def)

lemma format_getter_def:
  "format ''def {field_name}(self) -> {rtype}:'' [] [(''field_name'', n), (''rtype'', rt)]
   = Inr (''def '' @ n @ ''(self) -> '' @ rt @ '':'')"
  by (simp add: format_def field_value_def)

lemma format_docstring_total:
  "format_docstring d
   = Inr (indent (triple_quote @ nl @ strip_chars nl d @ nl @ triple_quote))"
  by (simp add: format_docstring_def format_def field_value_def bindE_def triple_quote_def
        nl_def)

lemma format_setter_marker:
  "format (CHR ''@'' # ''{field_name}.setter'') [] [(''field_name'', n)] = Inr (''@'' @ n @ ''.setter'')"
  by (simp add: format_def field_value_def)

lemma format_setter_def:
  "format ''def {field_name}({args}) -> {rtype}:'' [] [(''field_name'', n), (''args'', a)]
   = Inl (KeyError ''rtype'')"
  by (simp add: format_def field_value_def)

lemma sanitize_docstring_None: "sanitize_docstring ext None = []"
  by (simp add: sanitize_docstring_def remove_signatures_def rstrip_chars_def)

lemma bindE_Inr: "bindE x f = Inr y \<longleftrightarrow> (\<exists>v. x = Inr v \<and> f v = Inr y)"
  by (cases x) (simp_all add: bindE_def)

lemma bindE_simps [simp]: "bindE (Inl e) f = Inl e" "bindE (Inr v) f = f v"
  by (simp_all add: bindE_def)

section \<open>Properties\<close>

subsection \<open>Rendering a property\<close>

lemma property_without_setter:
  "setter_args (signature g) = ''None'' \<Longrightarrow>
   \<exists>getter_def getter_doc.
     PropertyStubsGenerator_to_lines ext g = Inr [''@property'', getter_def, getter_doc]"
  unfolding PropertyStubsGenerator_to_lines_def Let_def
  by (simp add: format_type_line format_getter_def format_docstring_total bindE_def)

text \<open>
  C1. A property with a setter should render as a getter block followed by a setter
  block. \<open>PropertyStubsGenerator.to_lines\<close> does not return for such a property: whenever
  \<open>setter_args\<close> is not \<open>''None''\<close>, building the setter's \<open>def\<close> line raises
  \<open>KeyError('rtype')\<close>, whatever the name, the docstring and the types are.
\<close>

theorem property_with_setter_raises:
  "setter_args (signature g) \<noteq> ''None'' \<Longrightarrow>
   PropertyStubsGenerator_to_lines ext g = Inl (KeyError ''rtype'')"
  unfolding PropertyStubsGenerator_to_lines_def Let_def
  by (simp add: format_type_line format_getter_def format_docstring_total format_setter_marker
        format_setter_def bindE_def)

theorem property_with_setter_raises_witness:
  "setter_args (signature
     \<lparr>prop_name = ''x'', prop_doc = Some ''The x'',
      signature = \<lparr>getter_rtype = ''int'', setter_args = ''self, arg0: int'',
                   access_type = 3\<rparr>\<rparr>) \<noteq> ''None'' \<and>
   PropertyStubsGenerator_to_lines
     \<lparr>ast_parse = (\<lambda>s. None), boost_args = (\<lambda>s. None), hooks = [], hash = (\<lambda>s. 0)\<rparr>
     \<lparr>prop_name = ''x'', prop_doc = Some ''The x'',
      signature = \<lparr>getter_rtype = ''int'', setter_args = ''self, arg0: int'',
                   access_type = 3\<rparr>\<rparr>
   = Inl (KeyError ''rtype'')"
proof -
  have h: "setter_args (signature
     \<lparr>prop_name = ''x'', prop_doc = Some ''The x'',
      signature = \<lparr>getter_rtype = ''int'', setter_args = ''self, arg0: int'',
                   access_type = 3\<rparr>\<rparr>) \<noteq> ''None''"
    by simp
  show ?thesis
    using h property_with_setter_raises [OF h] by simp
qed

subsection \<open>Rendering a class member\<close>

text \<open>
  C9. A class member whose first parameter is not \<open>self\<close> should be marked
  \<open>@staticmethod\<close>. The test of \<open>ClassMemberStubsGenerator.to_lines\<close> is whether the
  argument text starts with the four characters \<open>self\<close>: a first parameter \<open>selfie\<close> is
  taken for the receiver, no marker is written and the parameter is replaced by \<open>self\<close>.
\<close>

theorem class_member_self_prefix:
  "ClassMemberStubsGenerator_to_lines ext
     \<lparr>fn_name = ''f'', member_doc = None,
      signatures = [\<lparr>name = ''f'', args = ''selfie: int, x: int'', rtype = ''None''\<rparr>]\<rparr>
   = Inr [''def f(self, x: int) -> None: ...'']"
  by (simp add: ClassMemberStubsGenerator_to_lines_def sanitize_docstring_None startswith_def
        strip_def is_space_def split_arguments_def bindE_def format_def field_value_def)

lemmas regex_defs = default_pybind11_repr_re_def hex_digit_def numpy_array_re_def brackets_def
  typing_types_re_def parens_def no_parentheses_def parentheses_fold_def
  parentheses_three_fold_def signature_regex_def

lemmas eval_defs = function_signatures_from_docstring_def nl_def split_def regex_defs
      char_class_defs engine_defs bindE_def FunctionSignature_init_def assemble_def
      except_SyntaxError_def
      replace_default_pybind11_repr_def replacement_def log_invalid_defaults_def Let_def
      logger_log_def validate_syntax_def function_def_str_def strip_module_name_def
      apply_classname_replacements_def replace_numpy_array_def replace_typing_types_def
      list_of_set_def

subsection \<open>Validation of a candidate declaration\<close>

lemma fold_logger_log:
  "fold (\<lambda>d. logger_log lvl (f d)) ds st = st\<lparr>logged := logged st @ map (\<lambda>d. (lvl, f d)) ds\<rparr>"
  by (induction ds arbitrary: st) (simp_all add: logger_log_def)

lemma log_invalid_defaults_eq:
  "log_invalid_defaults ds st =
     (if ds = [] then st
      else st\<lparr>n_invalid_default_values := n_invalid_default_values st + 1,
              logged := logged st @
                (if ignore_invalid_defaultarg st then WARNING else ERROR,
                 ''Default argument value(s) replaced with ellipses (...):'') #
                map (\<lambda>d. (if ignore_invalid_defaultarg st then WARNING else ERROR, ''    '' @ d)) ds\<rparr>)"
  by (simp add: log_invalid_defaults_def Let_def fold_logger_log logger_log_def)

lemma validate_syntax_ok:
  "ast_parse ext (function_def_str sig) = None \<Longrightarrow> validate_syntax ext sig st = Inr (sig, st)"
  by (simp add: validate_syntax_def)

lemma validate_syntax_invalid:
  "ast_parse ext (function_def_str sig) = Some (SyntaxError (Some offset)) \<Longrightarrow>
   validate_syntax ext sig st =
     Inr (if signature_downgrade st then degraded sig else sig,
          st\<lparr>n_invalid_signatures := n_invalid_signatures st + 1,
             logged := logged st @ invalid_signature_records st sig offset\<rparr>)"
  by (simp add: validate_syntax_def except_SyntaxError_def Let_def logger_log_def degraded_def
        invalid_signature_records_def)

text \<open>
  A \<open>SyntaxError\<close> without position: the caret line raises \<open>TypeError\<close>, which nothing
  catches.
\<close>

lemma validate_syntax_no_offset:
  "ast_parse ext (function_def_str sig) = Some (SyntaxError None) \<Longrightarrow>
   validate_syntax ext sig st = Inl TypeError"
  by (simp add: validate_syntax_def except_SyntaxError_def Let_def split: prod.splits)

lemma grows_refl: "grows st st"
  by (simp add: grows_def)

lemma grows_trans: "grows a b \<Longrightarrow> grows b c \<Longrightarrow> grows a c"
  by (auto simp: grows_def)

lemma grows_fatal: "grows st st' \<Longrightarrow> n_fatal_errors st \<le> n_fatal_errors st'"
  by (auto simp: grows_def n_fatal_errors_def)

lemma log_invalid_defaults_grows: "grows st (log_invalid_defaults ds st)"
  by (simp add: log_invalid_defaults_eq grows_def)

lemma validate_syntax_grows:
  "validate_syntax ext sig st = Inr (sig', st') \<Longrightarrow> grows st st'"
  by (auto simp: validate_syntax_def except_SyntaxError_def Let_def logger_log_def grows_def
      split: option.splits parse_failure.splits if_splits)

lemma init_grows:
  assumes "FunctionSignature_init ext nm ar rt v st = Inr (sig, st')"
  shows "grows st st'"
proof (cases v)
  case False
  then show ?thesis using assms by (simp add: FunctionSignature_init_def grows_refl)
next
  case True
  then obtain cand where
    "validate_syntax ext cand (log_invalid_defaults (fst (replace_default_pybind11_repr ar)) st)
     = Inr (sig, st')"
    using assms by (auto simp: FunctionSignature_init_def Let_def bindE_Inr)
  then show ?thesis
    using validate_syntax_grows log_invalid_defaults_grows grows_trans by blast
qed

lemma FunctionSignature_init_assembled:
  assumes "assemble ext (USE_BOOST_PYTHON st) nm ar rt = Inr cand"
  shows "FunctionSignature_init ext nm ar rt True st =
           validate_syntax ext cand (log_invalid_defaults (fst (replace_default_pybind11_repr ar)) st)"
proof -
  have "USE_BOOST_PYTHON (log_invalid_defaults (fst (replace_default_pybind11_repr ar)) st)
        = USE_BOOST_PYTHON st"
    using log_invalid_defaults_grows by (simp add: grows_def)
  then show ?thesis using assms by (simp add: FunctionSignature_init_def Let_def)
qed

lemma signatures_of_lines_grows:
  "signatures_of_lines ext nm lines st = Inr (sigs, st') \<Longrightarrow> grows st st'"
proof (induction lines arbitrary: st sigs)
  case Nil
  then show ?case by (simp add: grows_refl)
next
  case (Cons line lines)
  show ?case
  proof (cases "re_match (signature_regex nm) line")
    case None
    then show ?thesis using Cons by simp
  next
    case (Some m)
    then obtain sig st1 sigs' where
      i: "FunctionSignature_init ext nm (group_text m ''args'') (group_text m ''rtype'') True st
          = Inr (sig, st1)"
      and r: "signatures_of_lines ext nm lines st1 = Inr (sigs', st')"
      using Cons.prems by (auto simp: bindE_Inr)
    show ?thesis using init_grows [OF i] Cons.IH [OF r] grows_trans by blast
  qed
qed

lemma signatures_of_lines_member:
  assumes "signatures_of_lines ext nm lines st = Inr (sigs, st')"
    and "line \<in> set lines" and "re_match (signature_regex nm) line = Some m"
  shows "\<exists>s1 s2 sig. grows st s1 \<and>
           FunctionSignature_init ext nm (group_text m ''args'') (group_text m ''rtype'') True s1
             = Inr (sig, s2) \<and> sig \<in> set sigs"
  using assms
proof (induction lines arbitrary: st sigs)
  case Nil
  then show ?case by simp
next
  case (Cons l lines)
  show ?case
  proof (cases "re_match (signature_regex nm) l")
    case None
    then have "line \<in> set lines" using Cons.prems by auto
    then show ?thesis using Cons None by simp
  next
    case (Some m')
    then obtain sig st1 sigs' where
      i: "FunctionSignature_init ext nm (group_text m' ''args'') (group_text m' ''rtype'') True st
          = Inr (sig, st1)"
      and r: "signatures_of_lines ext nm lines st1 = Inr (sigs', st')"
      and s: "sigs = sig # sigs'"
      using Cons.prems(1) by (auto simp: bindE_Inr)
    show ?thesis
    proof (cases "line = l")
      case True
      then have "m' = m" using Some Cons.prems(3) by simp
      then show ?thesis using i s grows_refl by fastforce
    next
      case False
      then have "line \<in> set lines" using Cons.prems(2) by simp
      from Cons.IH [OF r this Cons.prems(3)] obtain s1 s2 sg where
        "grows st1 s1"
        "FunctionSignature_init ext nm (group_text m ''args'') (group_text m ''rtype'') True s1
           = Inr (sg, s2)" "sg \<in> set sigs'"
        by blast
      then show ?thesis using init_grows [OF i] grows_trans s by fastforce
    qed
  qed
qed

lemma function_signatures_listed:
  assumes "function_signatures_from_docstring ext nm (Some d) module_name st = Inr (sigs, st')"
  shows "\<exists>signatures.
           signatures_of_lines ext nm (split (fold (\<lambda>hook x. hook x) (hooks ext) d) nl) st
             = Inr (signatures, st') \<and>
           set sigs = listed module_name (BARE_NUPMY_NDARRAY st) ` set signatures"
proof -
  obtain signatures where
    l: "signatures_of_lines ext nm (split (fold (\<lambda>hook x. hook x) (hooks ext) d) nl) st
        = Inr (signatures, st')"
    using assms by (auto simp: function_signatures_from_docstring_def bindE_Inr Let_def)
  have b: "BARE_NUPMY_NDARRAY st' = BARE_NUPMY_NDARRAY st"
    using signatures_of_lines_grows [OF l] by (simp add: grows_def)
  have "sigs = sort_key args (list_of_set (hash ext)
                 (map (listed module_name (BARE_NUPMY_NDARRAY st')) signatures))"
    using assms l
    by (cases "module_name = []")
       (simp_all add: function_signatures_from_docstring_def Let_def listed_def [abs_def] o_def)
  then have "set sigs = listed module_name (BARE_NUPMY_NDARRAY st) ` set signatures"
    by (simp add: list_of_set_def b)
  then show ?thesis using l by blast
qed


lemma scope_replace:
  "replace_default_pybind11_repr ''a: std::vector<int>'' = ([], ''a: std::vector<int>'')"
  by (simp add: replace_default_pybind11_repr_def replacement_def regex_defs char_class_defs
        engine_defs)

lemma scope_match:
  "re_match (signature_regex ''f'') ''f(a: std::vector<int>) -> int'' =
     Some \<lparr>whole = ''f(a: std::vector<int>) -> int'',
           captured = [(''rtype'', ''int''), (''args'', ''a: std::vector<int>'')]\<rparr>"
  by (simp add: eval_defs)

lemma scope_signatures:
  "function_signatures_from_docstring reject_scope ''f''
     (Some ''f(a: std::vector<int>) -> int'') ''m''
     (initial_state\<lparr>signature_downgrade := False\<rparr>)
   = Inr ([\<lparr>name = ''f'', args = ''a: std::vector<int>'', rtype = ''int''\<rparr>],
          initial_state
            \<lparr>signature_downgrade := False, n_invalid_signatures := 1,
             logged := [(WARNING, ''Ignoring invalid signature:''),
                        (WARNING, ''def f(a: std::vector<int>) -> int: ...''),
                        (WARNING, ''            ^-- Invalid syntax'')]\<rparr>)"
  by (simp add: reject_scope_def initial_state_def eval_defs numeral_eq_Suc)

lemma listed_strips_module_name:
  "listed ''m'' False \<lparr>name = ''f'', args = ''a: std::vector<m.Foo>'', rtype = ''int''\<rparr>
   = \<lparr>name = ''f'', args = ''a: std::vector<Foo>'', rtype = ''int''\<rparr>"
  by (simp add: listed_def eval_defs)


text \<open>
  C3 (as amended). When the assembled candidate \<open>def <name>(<args>) -> <rtype>: ...\<close> fails
  to parse with a \<open>SyntaxError\<close> that has a position, the constructor returns a signature,
  the invalid-signature counter goes up by one and three records are logged: a heading,
  the declaration and a caret line. With downgrade enabled the signature is the degraded
  form \<open>(*args, **kwargs) -> typing.Any\<close>. With downgrade disabled the candidate is kept
  as it was assembled, not dropped, and the three records are warnings headed by
  \<open>Ignoring invalid signature:\<close>. In both cases the signature the constructor returned
  for a line of the docstring stands in the list of the member, in the form every
  signature takes there (module name stripped, type names replaced).
\<close>

theorem invalid_signature_kept:
  assumes "assemble ext (USE_BOOST_PYTHON st) nm ar rt = Inr cand"
    and "ast_parse ext (function_def_str cand) = Some (SyntaxError (Some offset))"
  shows "FunctionSignature_init ext nm ar rt True st =
           Inr (if signature_downgrade st then degraded cand else cand,
                (log_invalid_defaults (fst (replace_default_pybind11_repr ar)) st)
                  \<lparr>n_invalid_signatures := n_invalid_signatures st + 1,
                   logged := logged (log_invalid_defaults (fst (replace_default_pybind11_repr ar)) st)
                             @ invalid_signature_records st cand offset\<rparr>) \<and>
         (\<forall>d module_name sigs st' line m.
            function_signatures_from_docstring ext nm (Some d) module_name st = Inr (sigs, st') \<and>
            line \<in> set (split (fold (\<lambda>hook x. hook x) (hooks ext) d) nl) \<and>
            re_match (signature_regex nm) line = Some m \<and>
            group_text m ''args'' = ar \<and> group_text m ''rtype'' = rt \<longrightarrow>
            listed module_name (BARE_NUPMY_NDARRAY st)
              (if signature_downgrade st then degraded cand else cand) \<in> set sigs)"
proof -
  let ?kept = "if signature_downgrade st then degraded cand else cand"
  have init: "FunctionSignature_init ext nm ar rt True s
              = Inr (?kept,
                     (log_invalid_defaults (fst (replace_default_pybind11_repr ar)) s)
                       \<lparr>n_invalid_signatures := n_invalid_signatures s + 1,
                        logged := logged (log_invalid_defaults (fst (replace_default_pybind11_repr ar)) s)
                                  @ invalid_signature_records s cand offset\<rparr>)"
    if "grows st s" for s
  proof -
    let ?s1 = "log_invalid_defaults (fst (replace_default_pybind11_repr ar)) s"
    have f: "USE_BOOST_PYTHON s = USE_BOOST_PYTHON st" "signature_downgrade s = signature_downgrade st"
      using that by (simp_all add: grows_def)
    have g: "signature_downgrade ?s1 = signature_downgrade s"
      "ignore_invalid_signature ?s1 = ignore_invalid_signature s"
      "n_invalid_signatures ?s1 = n_invalid_signatures s"
      by (simp_all add: log_invalid_defaults_eq)
    have "FunctionSignature_init ext nm ar rt True s = validate_syntax ext cand ?s1"
      using assms(1) f by (intro FunctionSignature_init_assembled) simp
    then show ?thesis
      using assms(2) f g by (simp add: validate_syntax_invalid invalid_signature_records_def)
  qed
  have "listed mn (BARE_NUPMY_NDARRAY st) ?kept \<in> set sigs"
    if r: "function_signatures_from_docstring ext nm (Some d) mn st = Inr (sigs, st')"
      and l: "line \<in> set (split (fold (\<lambda>hook x. hook x) (hooks ext) d) nl)"
      and m: "re_match (signature_regex nm) line = Some m"
      and a: "group_text m ''args'' = ar" "group_text m ''rtype'' = rt"
    for d mn sigs st' line m
  proof -
    obtain signatures where
      s: "signatures_of_lines ext nm (split (fold (\<lambda>hook x. hook x) (hooks ext) d) nl) st
          = Inr (signatures, st')"
      and e: "set sigs = listed mn (BARE_NUPMY_NDARRAY st) ` set signatures"
      using function_signatures_listed [OF r] by blast
    obtain s1 s2 sig where
      g: "grows st s1"
      and i: "FunctionSignature_init ext nm ar rt True s1 = Inr (sig, s2)"
      and "sig \<in> set signatures"
      using signatures_of_lines_member [OF s l m] a by blast
    moreover have "sig = ?kept" using init [OF g] i by simp
    ultimately show ?thesis using e by blast
  qed
  then show ?thesis using init [OF grows_refl] by blast
qed

theorem invalid_signature_kept_witness:
  "assemble reject_scope (USE_BOOST_PYTHON (initial_state\<lparr>signature_downgrade := False\<rparr>))
     ''f'' ''a: std::vector<int>'' ''int''
     = Inr \<lparr>name = ''f'', args = ''a: std::vector<int>'', rtype = ''int''\<rparr> \<and>
   ast_parse reject_scope
     (function_def_str \<lparr>name = ''f'', args = ''a: std::vector<int>'', rtype = ''int''\<rparr>)
     = Some (SyntaxError (Some 13)) \<and>
   FunctionSignature_init reject_scope ''f'' ''a: std::vector<int>'' ''int'' True
     (initial_state\<lparr>signature_downgrade := False\<rparr>)
     = Inr (\<lparr>name = ''f'', args = ''a: std::vector<int>'', rtype = ''int''\<rparr>,
            initial_state
              \<lparr>signature_downgrade := False, n_invalid_signatures := 1,
               logged := [(WARNING, ''Ignoring invalid signature:''),
                          (WARNING, ''def f(a: std::vector<int>) -> int: ...''),
                          (WARNING, ''            ^-- Invalid syntax'')]\<rparr>) \<and>
   listed ''m'' False \<lparr>name = ''f'', args = ''a: std::vector<int>'', rtype = ''int''\<rparr>
     \<in> set (fst (projr (function_signatures_from_docstring reject_scope ''f''
                            (Some ''f(a: std::vector<int>) -> int'') ''m''
                            (initial_state\<lparr>signature_downgrade := False\<rparr>))))"
proof -
  let ?st = "initial_state\<lparr>signature_downgrade := False\<rparr>"
  let ?cand = "\<lparr>name = ''f'', args = ''a: std::vector<int>'', rtype = ''int''\<rparr>"
  let ?m = "\<lparr>whole = ''f(a: std::vector<int>) -> int'',
             captured = [(''rtype'', ''int''), (''args'', ''a: std::vector<int>'')]\<rparr>"
  have h1: "assemble reject_scope (USE_BOOST_PYTHON ?st) ''f'' ''a: std::vector<int>'' ''int''
            = Inr ?cand"
    by (simp add: assemble_def scope_replace initial_state_def)
  have h2: "ast_parse reject_scope (function_def_str ?cand) = Some (SyntaxError (Some 13))"
    by (simp add: reject_scope_def function_def_str_def)
  have l: "''f(a: std::vector<int>) -> int''
           \<in> set (split (fold (\<lambda>hook x. hook x) (hooks reject_scope)
                           ''f(a: std::vector<int>) -> int'') nl)"
    by (simp add: reject_scope_def split_def nl_def)
  have g: "group_text ?m ''args'' = ''a: std::vector<int>''" "group_text ?m ''rtype'' = ''int''"
    by (simp_all add: group_text_def group_def)
  have d: "\<not> signature_downgrade ?st" "\<not> BARE_NUPMY_NDARRAY ?st"
    "n_invalid_signatures ?st = 0" "logged ?st = []"
    by (simp_all add: initial_state_def)
  note t = invalid_signature_kept [OF h1 h2]
  have "listed ''m'' (BARE_NUPMY_NDARRAY ?st) (if signature_downgrade ?st then degraded ?cand else ?cand)
        \<in> set [?cand]"
    using t [THEN conjunct2, rule_format, of "''f(a: std::vector<int>) -> int''" "''m''" "[?cand]" _
               "''f(a: std::vector<int>) -> int''" ?m]
      scope_signatures l scope_match g
    by blast
  moreover have "FunctionSignature_init reject_scope ''f'' ''a: std::vector<int>'' ''int'' True ?st
     = Inr (?cand,
            initial_state
              \<lparr>signature_downgrade := False, n_invalid_signatures := 1,
               logged := [(WARNING, ''Ignoring invalid signature:''),
                          (WARNING, ''def f(a: std::vector<int>) -> int: ...''),
                          (WARNING, ''            ^-- Invalid syntax'')]\<rparr>)"
    using t [THEN conjunct1] d
    by (simp add: scope_replace log_invalid_defaults_eq invalid_signature_records_def
          function_def_str_def numeral_eq_Suc initial_state_def)
  ultimately show ?thesis
    using h1 h2 d by (simp add: scope_signatures)
qed


text \<open>
  The claim as stated fails: with downgrade disabled, the rejected candidate of the
  docstring line \<open>f(a: std::vector<int>) -> int\<close> is in the list of signatures that
  \<open>function_signatures_from_docstring\<close> returns.
\<close>

theorem invalid_signature_not_dropped:
  "map_sum id (\<lambda>r. (fst r, n_invalid_signatures (snd r)))
     (function_signatures_from_docstring reject_scope ''f''
        (Some ''f(a: std::vector<int>) -> int'') ''m''
        (initial_state\<lparr>signature_downgrade := False\<rparr>))
   = Inr ([\<lparr>name = ''f'', args = ''a: std::vector<int>'', rtype = ''int''\<rparr>], 1)"
  by (simp add: scope_signatures)

subsection \<open>The run over the requested roots\<close>

text \<open>
  Parsing changes the state only by visiting objects, counting and logging: the
  switches stay, the visited objects and the counters do not shrink, and a module or
  class that was parsed is visited.
\<close>

lemma function_signatures_grows:
  assumes "function_signatures_from_docstring ext nm doc mn st = Inr (sigs, st')"
  shows "grows st st'"
proof (cases doc)
  case None
  then show ?thesis using assms by (simp add: function_signatures_from_docstring_def grows_refl)
next
  case (Some d)
  then obtain signatures where
    "signatures_of_lines ext nm (split (fold (\<lambda>hook x. hook x) (hooks ext) d) nl) st
     = Inr (signatures, st')"
    using assms by (auto simp: function_signatures_from_docstring_def bindE_Inr Let_def)
  then show ?thesis by (rule signatures_of_lines_grows)
qed

lemma parse_functions_grows:
  "parse_functions ext mn members st = Inr (fs, st') \<Longrightarrow> grows st st'"
proof (induction members arbitrary: st fs)
  case Nil
  then show ?case by (simp add: grows_refl)
next
  case (Cons member members)
  then obtain f st1 fs' where
    p: "FreeFunctionStubsGenerator_parse ext mn member st = Inr (f, st1)"
    and r: "parse_functions ext mn members st1 = Inr (fs', st')"
    by (auto simp: bindE_Inr)
  have "grows st st1"
    using p function_signatures_grows
    by (fastforce simp: FreeFunctionStubsGenerator_parse_def bindE_Inr)
  then show ?case using Cons.IH [OF r] grows_trans by blast
qed

lemma grows_visit: "grows st (st\<lparr>visited_objects := visited_objects st @ [h]\<rparr>)"
  by (auto simp: grows_def)

lemma grows_visited: "grows st st' \<Longrightarrow> h \<in> set (visited_objects st) \<Longrightarrow> h \<in> set (visited_objects st')"
  by (auto simp: grows_def)

lemma class_parse_grows:
  "ClassStubsGenerator_parse ext c st = Inr (g, st') \<Longrightarrow>
     grows st st' \<and> klass_handle c \<in> set (visited_objects st')"
  "parse_classes ext cs st = Inr (gs, st') \<Longrightarrow> grows st st'"
proof (induction ext c st and ext cs st arbitrary: g st' and gs st'
       rule: ClassStubsGenerator_parse_parse_classes.induct)
  case (1 ext h nm md doc mro cls rts props attrs st)
  show ?case
  proof (cases "h \<in> set (visited_objects st)")
    case True
    then show ?thesis using "1.prems" by (auto simp: grows_refl)
  next
    case False
    let ?st0 = "st\<lparr>visited_objects := visited_objects st @ [h]\<rparr>"
    obtain nested st1 members where
      a: "parse_classes ext cls ?st0 = Inr (nested, st1)"
      and b: "parse_functions ext md rts st1 = Inr (members, st')"
      using "1.prems" False by (auto simp: bindE_Inr Let_def)
    have g: "grows ?st0 st'"
      using "1.IH" [OF False a] parse_functions_grows [OF b] grows_trans by blast
    have "h \<in> set (visited_objects ?st0)" by simp
    then have "h \<in> set (visited_objects st')" using g grows_visited by blast
    then show ?thesis using g grows_visit [of st h] grows_trans by auto
  qed
next
  case (2 ext st)
  then show ?case by (simp add: grows_refl)
next
  case (3 ext c cs st)
  obtain g1 st1 gs1 where
    a: "ClassStubsGenerator_parse ext c st = Inr (g1, st1)"
    and b: "parse_classes ext cs st1 = Inr (gs1, st')"
    using "3.prems" by (auto simp: bindE_Inr)
  show ?case using "3.IH"(1) [OF a] "3.IH"(2) [OF b] grows_trans by blast
qed

lemma parse_imported_classes_grows:
  "parse_imported_classes ext cs st = Inr (gs, st') \<Longrightarrow> grows st st'"
proof (induction ext cs st arbitrary: gs st' rule: parse_imported_classes.induct)
  case (1 ext st)
  then show ?case by (simp add: grows_refl)
next
  case (2 ext c elsewhere cs st)
  show ?case
  proof (cases elsewhere)
    case True
    then obtain g1 st1 gs1 where
      a: "ClassStubsGenerator_parse ext c st = Inr (g1, st1)"
      and b: "parse_imported_classes ext cs st1 = Inr (gs1, st')"
      using "2.prems" by (auto simp: bindE_Inr)
    show ?thesis using class_parse_grows(1) [OF a] "2.IH"(1) [OF True b] grows_trans by blast
  next
    case False
    then obtain gs1 where b: "parse_imported_classes ext cs st = Inr (gs1, st')"
      using "2.prems" by (auto simp: bindE_Inr)
    show ?thesis using "2.IH"(2) [OF False b] .
  qed
qed

lemma parse_own_classes_grows:
  "parse_own_classes ext cs st = Inr (gs, st') \<Longrightarrow> grows st st'"
proof (induction ext cs st arbitrary: gs st' rule: parse_own_classes.induct)
  case (1 ext st)
  then show ?case by (simp add: grows_refl)
next
  case (2 ext c elsewhere g cs st)
  then show ?case by (auto simp: bindE_Inr)
next
  case (3 ext c elsewhere cs st)
  obtain g1 st1 gs1 where
    a: "ClassStubsGenerator_parse ext c st = Inr (g1, st1)"
    and b: "parse_own_classes ext cs st1 = Inr (gs1, st')"
    using "3.prems" by (auto simp: bindE_Inr)
  show ?case using class_parse_grows(1) [OF a] "3.IH" [OF b] grows_trans by blast
qed

lemma module_parse_grows:
  "ModuleStubsGenerator_parse ext m st = Inr (g, st') \<Longrightarrow>
     grows st st' \<and> mod_handle m \<in> set (visited_objects st')"
  "parse_modules ext ms st = Inr (gs, st') \<Longrightarrow> grows st st'"
proof (induction ext m st and ext ms st arbitrary: g st' and gs st'
       rule: ModuleStubsGenerator_parse_parse_modules.induct)
  case (1 ext h nm doc exported imported subs fns cls attrs st)
  show ?case
  proof (cases "h \<in> set (visited_objects st)")
    case True
    then show ?thesis using "1.prems" by (auto simp: grows_refl)
  next
    case False
    let ?st0 = "st\<lparr>visited_objects := visited_objects st @ [h]\<rparr>"
    obtain early st1 submodules st2 generators st3 fns' where
      a: "parse_imported_classes ext cls ?st0 = Inr (early, st1)"
      and b: "parse_modules ext subs st1 = Inr (submodules, st2)"
      and c: "parse_own_classes ext (zip cls early) st2 = Inr (generators, st3)"
      and d: "parse_functions ext nm fns st3 = Inr (fns', st')"
      using "1.prems" False by (auto simp: bindE_Inr)
    have g: "grows ?st0 st'"
      using parse_imported_classes_grows [OF a] "1.IH" [OF False b]
        parse_own_classes_grows [OF c] parse_functions_grows [OF d] grows_trans
      by blast
    have "h \<in> set (visited_objects ?st0)" by simp
    then have "h \<in> set (visited_objects st')" using g grows_visited by blast
    then show ?thesis using g grows_visit [of st h] grows_trans by auto
  qed
next
  case (2 ext st)
  then show ?case by (simp add: grows_refl)
next
  case (3 ext m ms st)
  obtain g1 st1 gs1 where
    a: "ModuleStubsGenerator_parse ext m st = Inr (g1, st1)"
    and b: "parse_modules ext ms st1 = Inr (gs1, st')"
    using "3.prems" by (auto simp: bindE_Inr)
  show ?case using "3.IH"(1) [OF a] "3.IH"(2) [OF b] grows_trans by blast
qed


lemma main_loop_out:
  "main_loop ext ms (st, out) =
     bindE (main_loop ext ms (st, [])) (\<lambda>(s, more). Inr (s, out @ more))"
proof (induction ms arbitrary: st out)
  case Nil
  show ?case by simp
next
  case (Cons m ms)
  show ?case
  proof (cases "ModuleStubsGenerator_parse ext m st")
    case (Inl e)
    then show ?thesis by simp
  next
    case (Inr r)
    obtain g st1 where r: "r = (g, st1)" by (cases r)
    show ?thesis
    proof (cases "n_fatal_errors st1 = 0")
      case False
      then show ?thesis using Inr r Cons.IH [of st1 out] by simp
    next
      case True
      show ?thesis
      proof (cases "ModuleStubsGenerator_write ext (BARE_NUPMY_NDARRAY st1) g")
        case (Inl e)
        then show ?thesis using \<open>ModuleStubsGenerator_parse ext m st = Inr r\<close> r True by simp
      next
        case (Inr files)
        have a: "main_loop ext ms (st1, out @ [(mod_name m, files)]) =
                 bindE (main_loop ext ms (st1, []))
                   (\<lambda>(s, more). Inr (s, out @ [(mod_name m, files)] @ more))"
          using Cons.IH [of st1 "out @ [(mod_name m, files)]"] by simp
        have b: "main_loop ext ms (st1, [(mod_name m, files)]) =
                 bindE (main_loop ext ms (st1, []))
                   (\<lambda>(s, more). Inr (s, [(mod_name m, files)] @ more))"
          using Cons.IH [of st1 "[(mod_name m, files)]"] by simp
        show ?thesis
          using \<open>ModuleStubsGenerator_parse ext m st = Inr r\<close> r True Inr a b
          by (cases "main_loop ext ms (st1, [])") auto
      qed
    qed
  qed
qed

lemma main_loop_append:
  "main_loop ext (ms @ ms') acc = bindE (main_loop ext ms acc) (main_loop ext ms')"
proof (induction ms arbitrary: acc)
  case Nil
  show ?case by (cases acc) simp
next
  case (Cons a ms)
  obtain st out where acc: "acc = (st, out)" by (cases acc)
  show ?case
  proof (cases "ModuleStubsGenerator_parse ext a st")
    case (Inl e)
    then show ?thesis by (simp add: acc)
  next
    case (Inr r)
    obtain g st1 where r: "r = (g, st1)" by (cases r)
    show ?thesis
    proof (cases "n_fatal_errors st1 = 0")
      case False
      then show ?thesis using Inr r by (simp add: acc Cons.IH)
    next
      case True
      then show ?thesis
        using Inr r
        by (cases "ModuleStubsGenerator_write ext (BARE_NUPMY_NDARRAY st1) g")
           (simp_all add: acc Cons.IH)
    qed
  qed
qed

lemma main_loop_snoc:
  "main_loop ext (ms @ [m]) acc = bindE (main_loop ext ms acc) (main_loop ext [m])"
  by (rule main_loop_append)

lemma main_loop_single:
  assumes "main_loop ext [m] (st, out) = Inr (st', out')"
  shows "\<exists>g. ModuleStubsGenerator_parse ext m st = Inr (g, st') \<and>
             (if n_fatal_errors st' = 0
              then \<exists>files. ModuleStubsGenerator_write ext (BARE_NUPMY_NDARRAY st') g = Inr files \<and>
                           out' = out @ [(mod_name m, files)]
              else out' = out)"
  using assms by (auto simp: bindE_Inr split: if_splits)

lemma main_loop_grows:
  "main_loop ext ms (st, out) = Inr (st', out') \<Longrightarrow>
   grows st st' \<and> (\<forall>m \<in> set ms. mod_handle m \<in> set (visited_objects st'))"
proof (induction ms arbitrary: st' out' rule: rev_induct)
  case Nil
  then show ?case by (simp add: grows_refl)
next
  case (snoc m ms)
  obtain s o1 where l: "main_loop ext ms (st, out) = Inr (s, o1)"
    and r: "main_loop ext [m] (s, o1) = Inr (st', out')"
    using snoc.prems by (auto simp: main_loop_snoc bindE_Inr)
  obtain g where p: "ModuleStubsGenerator_parse ext m s = Inr (g, st')"
    using main_loop_single [OF r] by blast
  have g: "grows s st'" "mod_handle m \<in> set (visited_objects st')"
    using module_parse_grows(1) [OF p] by simp_all
  show ?case
    using snoc.IH [OF l] g grows_trans grows_visited by auto
qed

lemma written_indices_snoc:
  "written_indices ext (ms @ [m]) st =
     written_indices ext ms st @
     (if fatal_after ext (ms @ [m]) st = 0 then [length ms] else [])"
proof -
  have "filter (\<lambda>i. fatal_after ext (take (Suc i) (ms @ [m])) st = 0) [0 ..< length ms]
        = filter (\<lambda>i. fatal_after ext (take (Suc i) ms) st = 0) [0 ..< length ms]"
    by (rule filter_cong) auto
  then show ?thesis by (simp add: written_indices_def)
qed

lemma main_loop_written:
  "main_loop ext ms (st, []) = Inr (st', out) \<Longrightarrow>
   map fst out = map (\<lambda>i. mod_name (ms ! i)) (written_indices ext ms st)"
proof (induction ms arbitrary: st' out rule: rev_induct)
  case Nil
  then show ?case by (simp add: written_indices_def)
next
  case (snoc m ms)
  obtain s o1 where l: "main_loop ext ms (st, []) = Inr (s, o1)"
    and r: "main_loop ext [m] (s, o1) = Inr (st', out)"
    using snoc.prems by (auto simp: main_loop_snoc bindE_Inr)
  have fa: "fatal_after ext (ms @ [m]) st = n_fatal_errors st'"
    using snoc.prems by (simp add: fatal_after_def)
  have o: "map fst out = map fst o1 @ (if n_fatal_errors st' = 0 then [mod_name m] else [])"
    using main_loop_single [OF r] by (auto split: if_splits)
  have m1: "map (\<lambda>i. mod_name ((ms @ [m]) ! i)) (written_indices ext ms st)
            = map (\<lambda>i. mod_name (ms ! i)) (written_indices ext ms st)"
    by (rule map_cong) (auto simp: written_indices_def nth_append)
  show ?case
    using snoc.IH [OF l] fa o m1 by (simp add: written_indices_snoc)
qed

lemma log_useful_links_fields:
  "n_fatal_errors (log_useful_links st) = n_fatal_errors st"
  "visited_objects (log_useful_links st) = visited_objects st"
  by (simp_all add: log_useful_links_def Let_def logger_log_def n_fatal_errors_def)


text \<open>
  C2 (as amended). In a run over the requested roots that no exception ends, every root
  is parsed. The fatal count is evaluated after each root: the stubs of a root are
  written exactly when the count reached after that root is zero. It is evaluated once
  more after the loop, and the run reports failure (exit status 1) exactly when that
  final count is not zero.
\<close>

theorem main_gates_each_root:
  assumes "main ext a st = Inr (code, st', out)"
  shows "code = (if fatal_after ext (module_names a) (set_flags a st) = 0 then 0 else 1) \<and>
         n_fatal_errors st' = fatal_after ext (module_names a) (set_flags a st) \<and>
         map fst out = map (\<lambda>i. mod_name (module_names a ! i))
                           (written_indices ext (module_names a) (set_flags a st)) \<and>
         (\<forall>m \<in> set (module_names a). mod_handle m \<in> set (visited_objects st'))"
proof -
  obtain s where l: "main_loop ext (module_names a) (set_flags a st, []) = Inr (s, out)"
    and c: "code = (if n_fatal_errors (log_useful_links s) > 0 then 1 else 0)"
    and s: "st' = log_useful_links s"
    using assms by (auto simp: main_def bindE_Inr Let_def)
  have f: "fatal_after ext (module_names a) (set_flags a st) = n_fatal_errors s"
    using l by (simp add: fatal_after_def)
  show ?thesis
    using main_loop_written [OF l] main_loop_grows [OF l] c s f
    by (simp add: log_useful_links_fields)
qed

lemmas run_defs = set_flags_def initial_state_def
        accept_all_def FreeFunctionStubsGenerator_parse_def reorder_generators_def
        n_fatal_errors_def eval_defs

lemma two_roots_loop:
  "main_loop accept_all [bad_root, clean_root] (set_flags two_roots initial_state, [])
     = Inr (\<lparr>ignore_invalid_signature = False, ignore_invalid_defaultarg = False,
             signature_downgrade = True, n_invalid_default_values = 1, n_invalid_signatures = 0,
             BARE_NUPMY_NDARRAY = False, USE_BOOST_PYTHON = False, visited_objects = [1, 2],
             logged = [(ERROR, ''Default argument value(s) replaced with ellipses (...):''),
                       (ERROR, ''    <MyClass object at 0x7fAB1020>'')]\<rparr>, [])"
  by (simp add: bad_root_def clean_root_def two_roots_def run_defs)

lemma bad_root_loop:
  "fatal_after accept_all [bad_root] (set_flags two_roots initial_state) = 1"
  by (simp add: fatal_after_def bad_root_def two_roots_def run_defs)

lemma two_roots_main:
  "main accept_all two_roots initial_state
     = Inr (1, \<lparr>ignore_invalid_signature = False, ignore_invalid_defaultarg = False,
                 signature_downgrade = True, n_invalid_default_values = 1, n_invalid_signatures = 0,
                 BARE_NUPMY_NDARRAY = False, USE_BOOST_PYTHON = False, visited_objects = [1, 2],
                 logged = [(ERROR, ''Default argument value(s) replaced with ellipses (...):''),
                           (ERROR, ''    <MyClass object at 0x7fAB1020>''),
                           (INFO, ''Useful link: Default argument representation:''),
                           (INFO, ''      https://pybind11.readthedocs.io/en/latest/advanced/functions.html'' @
                                  ''#default-arguments-revisited'')]\<rparr>, [])"
proof -
  have m: "module_names two_roots = [bad_root, clean_root]" by (simp add: two_roots_def)
  show ?thesis
    unfolding main_def m two_roots_loop
    by (simp add: log_useful_links_def logger_log_def Let_def n_fatal_errors_def)
qed

lemma clean_root_alone:
  "map_sum id (\<lambda>r. (fst r, map fst (snd (snd r))))
     (main accept_all (two_roots\<lparr>module_names := [clean_root]\<rparr>) initial_state)
   = Inr (0, [''clean''])"
  by (simp add: main_def clean_root_def two_roots_def run_defs log_useful_links_def
      ModuleStubsGenerator_to_lines_def module_involved_modules_names_def
      get_involved_modules_names_def get_all_involved_types_def split_arguments_def strip_def
      argument_type_def type_name_re_def module_of_type_def rindex_def
      FreeFunctionStubsGenerator_to_lines_def sanitize_docstring_def remove_signatures_def
      remove_signatures_regex_def rstrip_chars_def format_def field_value_def)


theorem main_gates_each_root_witness:
  "main accept_all two_roots initial_state
     = Inr (1, \<lparr>ignore_invalid_signature = False, ignore_invalid_defaultarg = False,
                 signature_downgrade = True, n_invalid_default_values = 1, n_invalid_signatures = 0,
                 BARE_NUPMY_NDARRAY = False, USE_BOOST_PYTHON = False, visited_objects = [1, 2],
                 logged = [(ERROR, ''Default argument value(s) replaced with ellipses (...):''),
                           (ERROR, ''    <MyClass object at 0x7fAB1020>''),
                           (INFO, ''Useful link: Default argument representation:''),
                           (INFO, ''      https://pybind11.readthedocs.io/en/latest/advanced/functions.html'' @
                                  ''#default-arguments-revisited'')]\<rparr>, []) \<and>
   fatal_after accept_all (module_names two_roots) (set_flags two_roots initial_state) = 1 \<and>
   written_indices accept_all (module_names two_roots) (set_flags two_roots initial_state) = [] \<and>
   mod_handle bad_root = 1 \<and> mod_handle clean_root = 2"
proof -
  have m: "module_names two_roots = [bad_root, clean_root]" by (simp add: two_roots_def)
  have fa: "fatal_after accept_all [bad_root, clean_root] (set_flags two_roots initial_state) = 1"
    unfolding fatal_after_def two_roots_loop by (simp add: n_fatal_errors_def)
  have wi: "written_indices accept_all [bad_root, clean_root] (set_flags two_roots initial_state) = []"
    by (simp add: written_indices_def fa bad_root_loop upt_rec)
  have h: "mod_handle bad_root = 1" "mod_handle clean_root = 2"
    by (simp_all add: bad_root_def clean_root_def)
  show ?thesis
    using main_gates_each_root [OF two_roots_main] two_roots_main h
    by (simp add: m fa wi)
qed


text \<open>
  The claim as stated fails: of the roots \<open>bad\<close> and \<open>clean\<close>, requested in this order,
  neither is written, although parsing \<open>clean\<close> records no diagnostic and \<open>clean\<close>
  requested alone is written.
\<close>

theorem fatal_root_suppresses_clean_root:
  "map_sum id (\<lambda>r. (fst r, map fst (snd (snd r)), visited_objects (fst (snd r))))
     (main accept_all two_roots initial_state) = Inr (1, [], [1, 2]) \<and>
   map_sum id (\<lambda>r. (fst r, map fst (snd (snd r))))
     (main accept_all (two_roots\<lparr>module_names := [clean_root]\<rparr>) initial_state)
   = Inr (0, [''clean''])"
  by (simp add: two_roots_main clean_root_alone)


text \<open>
  The counters never go down, so a root after which the fatal count is not zero keeps
  every later root from being written.
\<close>

lemma fatal_after_mono:
  assumes "main_loop ext (ms @ ms') (st, []) = Inr r"
  shows "fatal_after ext ms st \<le> fatal_after ext (ms @ ms') st"
proof -
  obtain s' o' where r: "r = (s', o')" by (cases r)
  obtain s o1 where l: "main_loop ext ms (st, []) = Inr (s, o1)"
    and l': "main_loop ext ms' (s, o1) = Inr (s', o')"
    using assms r by (auto simp: main_loop_append bindE_Inr)
  have "grows s s'" using main_loop_grows [OF l'] by simp
  then show ?thesis using assms r l grows_fatal by (simp add: fatal_after_def)
qed

lemma fatal_root_blocks_later_roots:
  assumes "main_loop ext ms (st, []) = Inr r" and "i \<le> j" and "j < length ms"
    and "i \<notin> set (written_indices ext ms st)"
  shows "j \<notin> set (written_indices ext ms st)"
proof -
  have t: "take (Suc j) ms = take (Suc i) ms @ drop (Suc i) (take (Suc j) ms)"
    using assms(2) by (metis append_take_drop_id min.absorb1 not_less_eq_eq take_take)
  have "main_loop ext (take (Suc j) ms @ drop (Suc j) ms) (st, []) = Inr r"
    using assms(1) by simp
  then obtain r' where "main_loop ext (take (Suc j) ms) (st, []) = Inr r'"
    unfolding main_loop_append by (auto simp: bindE_Inr)
  then have "main_loop ext (take (Suc i) ms @ drop (Suc i) (take (Suc j) ms)) (st, []) = Inr r'"
    using t by simp
  then have "fatal_after ext (take (Suc i) ms) st
             \<le> fatal_after ext (take (Suc i) ms @ drop (Suc i) (take (Suc j) ms)) st"
    by (rule fatal_after_mono)
  then have "fatal_after ext (take (Suc i) ms) st \<le> fatal_after ext (take (Suc j) ms) st"
    using t by simp
  then show ?thesis using assms by (auto simp: written_indices_def)
qed


text \<open>
  An exception ends the run. The class of \<open>setter_root\<close> has a property whose setter has
  a docstring: the root is parsed without diagnostic and \<open>write\<close> raises the \<open>KeyError\<close> of
  \<open>PropertyStubsGenerator.to_lines\<close>. The class of \<open>bracket_root\<close> has a method with a
  bracket as a default value: \<open>ClassStubsGenerator.parse\<close> raises the \<open>AssertionError\<close> of
  \<open>split_arguments\<close>.
\<close>

lemma setter_root_parsed:
  "ModuleStubsGenerator_parse accept_all setter_root initial_state =
   Inr (ModuleStubsGenerator setter_root None
          [ClassStubsGenerator
            (ClassObj 4 ''C'' ''p'' None [] [] []
              [\<lparr>property_name = ''x'', property_doc = None,
                fget_doc = Some (Some ''(self: p.C) -> int''),
                fset_doc = Some (Some ''(self: p.C, arg0: int) -> None'')\<rparr>] [])
            None [] []
            [\<lparr>prop_name = ''x'', prop_doc = None,
              signature = \<lparr>getter_rtype = ''int'', setter_args = ''self, arg0: int'',
                           access_type = 3\<rparr>\<rparr>]
            [] [] []]
          [] [] [] [],
        initial_state\<lparr>visited_objects := [3, 4]\<rparr>)"
  by (simp add: setter_root_def run_defs PropertyStubsGenerator_parse_def
      property_signature_from_docstring_def property_signature_re_def replace_def
      numeral_3_eq_3)

lemma setter_to_lines:
  "setter_args (signature g) \<noteq> ''None'' \<Longrightarrow>
   PropertyStubsGenerator_to_lines ext g = Inl (KeyError ''rtype'')"
  unfolding PropertyStubsGenerator_to_lines_def Let_def
  by (simp add: format_type_line format_getter_def format_docstring_total format_setter_marker
        format_setter_def bindE_def)

lemma setter_aborts_run:
  "main accept_all (run_of [setter_root]) initial_state = Inl (KeyError ''rtype'')"
proof -
  have "set_flags (run_of [setter_root]) initial_state = initial_state"
    by (simp add: run_of_def set_flags_def)
  moreover have "n_fatal_errors (initial_state\<lparr>visited_objects := [3, 4]\<rparr>) = 0"
    by (simp add: n_fatal_errors_def initial_state_def)
  ultimately show ?thesis
    by (simp add: main_def run_of_def setter_root_parsed setter_to_lines
        ModuleStubsGenerator_to_lines_def Let_def format_def field_value_def)
qed

lemma assertion_aborts_run:
  "main accept_all (run_of [bracket_root]) initial_state = Inl AssertionError"
proof -
  have "ModuleStubsGenerator_parse accept_all bracket_root initial_state = Inl AssertionError"
    by (simp add: bracket_root_def run_defs get_involved_modules_names_def
      get_all_involved_types_def split_arguments_def strip_def)
  moreover have "set_flags (run_of [bracket_root]) initial_state = initial_state"
    by (simp add: run_of_def set_flags_def)
  ultimately show ?thesis by (simp add: main_def run_of_def)
qed

subsection \<open>Splitting an argument list\<close>

lemma split_loop_error:
  "split_loop a i cs p d acc = Inl e \<Longrightarrow> e = AssertionError"
  by (induction cs arbitrary: i p d acc) (auto split: if_splits)

lemma split_loop_ref:
  "a = pre @ cs \<Longrightarrow> i = length pre \<Longrightarrow> p \<le> i \<Longrightarrow>
   split_result a (split_loop a i cs p d acc) = map_option ((@) acc) (split_ref d (drop p pre) cs)"
proof (induction cs arbitrary: pre i p d acc)
  case Nil
  then show ?case by (simp add: split_result_def)
next
  case (Cons c cs)
  have a: "a = (pre @ [c]) @ cs" and i: "i + 1 = length (pre @ [c])"
    using Cons.prems by simp_all
  have p: "p \<le> i + 1" using Cons.prems by simp
  have dp: "drop p (pre @ [c]) = drop p pre @ [c]" using Cons.prems by simp
  have tk: "take (i - p) (drop p a) = drop p pre" using Cons.prems by simp
  have e: "drop (i + 1) (pre @ [c]) = []" using Cons.prems by simp
  have same: "\<And>d'. split_result a (split_loop a (i + 1) cs p d' acc)
                   = map_option ((@) acc) (split_ref d' (drop p pre @ [c]) cs)"
    using Cons.IH [OF a i p] by (simp only: dp)
  have comma: "split_result a (split_loop a (i + 1) cs (i + 1) d (acc @ [drop p pre]))
                 = map_option ((@) (acc @ [drop p pre])) (split_ref d [] cs)"
    using Cons.IH [OF a i, of "i + 1" d "acc @ [drop p pre]"] by (simp only: e le_refl)
  show ?case
  proof (cases "c = CHR ''[''")
    case True
    then show ?thesis using same [of "d + 1"] by simp
  next
    case nb: False
    show ?thesis
    proof (cases "c = CHR '']''")
      case True
      then show ?thesis using same [of "d - 1"] by (simp add: split_result_def)
    next
      case nc: False
      show ?thesis
      proof (cases "c = CHR '','' \<and> d = 0")
        case True
        then show ?thesis using comma tk by (cases "split_ref 0 [] cs") simp_all
      next
        case False
        then show ?thesis using nb nc same [of d] by auto
      qed
    qed
  qed
qed

lemma split_arguments_ref:
  "split_arguments sig =
     (if strip (args sig) = [] then Inr []
      else case split_ref 0 [] (args sig) of None \<Rightarrow> Inl AssertionError | Some segs \<Rightarrow> Inr segs)"
proof -
  have r: "split_result (args sig) (split_loop (args sig) 0 (args sig) 0 0 [])
             = map_option ((@) []) (split_ref 0 (drop 0 []) (args sig))"
    by (rule split_loop_ref) simp_all
  show ?thesis
  proof (cases "split_loop (args sig) 0 (args sig) 0 0 []")
    case (Inl e)
    then show ?thesis using r split_loop_error [OF Inl]
      by (simp add: split_arguments_def split_result_def)
  next
    case (Inr t)
    then show ?thesis using r
      by (cases t; cases "split_ref 0 [] (args sig)")
         (auto simp: split_arguments_def split_result_def split: if_splits)
  qed
qed


lemma depth_after_append:
  "depth_after d (xs @ ys) = (case depth_after d xs of None \<Rightarrow> None | Some d' \<Rightarrow> depth_after d' ys)"
  by (induction xs arbitrary: d) simp_all

lemma top_level_commas_append:
  "depth_after d xs = Some d' \<Longrightarrow>
   top_level_commas d (xs @ ys) = top_level_commas d xs + top_level_commas d' ys"
  by (induction xs arbitrary: d) (auto split: if_splits)

lemma split_ref_total:
  "depth_after d s = Some 0 \<Longrightarrow> \<exists>segs. split_ref d cur s = Some segs"
  by (induction s arbitrary: d cur) (auto split: if_splits)

lemma split_ref_length:
  "split_ref d cur s = Some segs \<Longrightarrow> length segs = Suc (top_level_commas d s)"
  by (induction s arbitrary: d cur segs) (auto split: if_splits)

lemma split_ref_join:
  "split_ref d cur s = Some segs \<Longrightarrow> join '','' segs = cur @ s"
proof (induction s arbitrary: d cur segs)
  case Nil
  then show ?case by (auto split: if_splits)
next
  case (Cons c s)
  show ?case
  proof (cases "c = CHR '','' \<and> d = 0")
    case True
    then obtain rest where r: "split_ref d [] s = Some rest" and segs: "segs = cur # rest"
      using Cons.prems by auto
    have "join '','' rest = s" using Cons.IH [OF r] by simp
    moreover have "rest \<noteq> []" using split_ref_length [OF r] by auto
    ultimately show ?thesis using True segs by (cases rest) simp_all
  next
    case False
    then show ?thesis using Cons.prems Cons.IH by (auto split: if_splits)
  qed
qed

lemma split_ref_segments:
  "split_ref d cur s = Some segs \<Longrightarrow> depth_after 0 cur = Some d \<Longrightarrow>
   top_level_commas 0 cur = 0 \<Longrightarrow>
   \<forall>seg \<in> set segs. balanced seg \<and> top_level_commas 0 seg = 0"
proof (induction s arbitrary: d cur segs)
  case Nil
  then show ?case by (auto simp: balanced_def split: if_splits)
next
  case (Cons c s)
  show ?case
  proof (cases "c = CHR '','' \<and> d = 0")
    case True
    then obtain rest where r: "split_ref 0 [] s = Some rest" and segs: "segs = cur # rest"
      using Cons.prems by auto
    have "\<forall>seg \<in> set rest. balanced seg \<and> top_level_commas 0 seg = 0"
      using Cons.IH [OF r] by simp
    then show ?thesis using segs Cons.prems True by (simp add: balanced_def)
  next
    case False
    have step: "split_ref d' (cur @ [c]) s = Some segs \<Longrightarrow> depth_after 0 (cur @ [c]) = Some d' \<Longrightarrow>
            top_level_commas 0 (cur @ [c]) = 0 \<Longrightarrow> ?thesis" for d'
      using Cons.IH by blast
    show ?thesis
    proof (cases "c = CHR ''[''")
      case True
      show ?thesis
        using Cons.prems True
        by (intro step [of "d + 1"]) (simp_all add: depth_after_append top_level_commas_append)
    next
      case nb: False
      show ?thesis
      proof (cases "c = CHR '']''")
        case True
        show ?thesis
          using Cons.prems True
          by (intro step [of "d - 1"])
             (simp_all add: depth_after_append top_level_commas_append split: if_splits)
      next
        case nc: False
        show ?thesis
          using Cons.prems False nb nc
          by (intro step [of d]) (auto simp: depth_after_append top_level_commas_append)
      qed
    qed
  qed
qed

text \<open>
  C10 (as amended). For argument text with balanced square brackets that is not blank,
  \<open>split_arguments\<close> splits exactly at the commas outside all brackets: the segments
  joined by \<open>,\<close> are the argument text, there is one segment more than there are
  top-level commas, and every segment has balanced brackets and no top-level comma (so
  no comma inside brackets is a split point). Blank argument text, empty or white space
  only, gives the empty list.
\<close>

theorem split_arguments_top_level:
  assumes "balanced (args sig)"
  shows "if strip (args sig) = [] then split_arguments sig = Inr []
         else \<exists>segs. split_arguments sig = Inr segs \<and>
                join '','' segs = args sig \<and>
                length segs = Suc (top_level_commas 0 (args sig)) \<and>
                (\<forall>seg \<in> set segs. balanced seg \<and> top_level_commas 0 seg = 0)"
proof (cases "strip (args sig) = []")
  case True
  then show ?thesis by (simp add: split_arguments_ref)
next
  case False
  obtain segs where s: "split_ref 0 [] (args sig) = Some segs"
    using split_ref_total assms unfolding balanced_def by blast
  have "split_arguments sig = Inr segs" using False s by (simp add: split_arguments_ref)
  moreover have "join '','' segs = args sig" using split_ref_join [OF s] by simp
  moreover have "length segs = Suc (top_level_commas 0 (args sig))" using split_ref_length [OF s] .
  moreover have "\<forall>seg \<in> set segs. balanced seg \<and> top_level_commas 0 seg = 0"
    using split_ref_segments [OF s] by simp
  ultimately show ?thesis using False by simp
qed

theorem split_arguments_top_level_witness:
  "balanced (args \<lparr>name = ''f'', args = ''a: Dict[str, int], b: int'', rtype = ''None''\<rparr>) \<and>
   (\<exists>segs. split_arguments \<lparr>name = ''f'', args = ''a: Dict[str, int], b: int'', rtype = ''None''\<rparr>
              = Inr segs \<and>
           join '','' segs = ''a: Dict[str, int], b: int'' \<and> length segs = 2 \<and>
           (\<forall>seg \<in> set segs. balanced seg \<and> top_level_commas 0 seg = 0))"
proof -
  let ?sig = "\<lparr>name = ''f'', args = ''a: Dict[str, int], b: int'', rtype = ''None''\<rparr>"
  have h: "balanced (args ?sig)" by (simp add: balanced_def)
  have s: "strip (args ?sig) \<noteq> []" by (simp add: strip_def is_space_def)
  have c: "top_level_commas 0 (args ?sig) = 1" by simp
  show ?thesis
    using h split_arguments_top_level [OF h] s c by (simp add: numeral_2_eq_2)
qed

text \<open>
  The claim as stated fails on argument text of one space: its brackets are balanced,
  the result is the empty list, and joining the empty list does not give the space back.
\<close>

theorem split_arguments_blank:
  "balanced (args \<lparr>name = ''f'', args = '' '', rtype = ''None''\<rparr>) \<and>
   split_arguments \<lparr>name = ''f'', args = '' '', rtype = ''None''\<rparr> = Inr [] \<and>
   join '','' [] \<noteq> args \<lparr>name = ''f'', args = '' '', rtype = ''None''\<rparr>"
  by (simp add: balanced_def split_arguments_def strip_def is_space_def)

text \<open>Unbalanced brackets in text that is not blank end in an assertion failure.\<close>

lemma split_arguments_unbalanced:
  "\<not> balanced (args sig) \<Longrightarrow> strip (args sig) \<noteq> [] \<Longrightarrow> split_arguments sig = Inl AssertionError"
proof -
  have n: "depth_after d s \<noteq> Some 0 \<Longrightarrow> split_ref d cur s = None" for d s cur
    by (induction s arbitrary: d cur) (auto split: if_splits)
  assume "\<not> balanced (args sig)" and "strip (args sig) \<noteq> []"
  then show ?thesis using n [of 0 "args sig" "[]"] by (simp add: split_arguments_ref balanced_def)
qed

subsection \<open>Ordering the classes of a module\<close>

lemma class_ordering_neg:
  "class_ordering sub a b < 0 \<longleftrightarrow> strict_subclass sub a b"
  by (simp add: class_ordering_def strict_subclass_def)

lemma swap_step_length [simp]: "length (swap_step sub i j cs) = length cs"
  by (simp add: swap_step_def)

lemma swap_step_mset:
  "i < length cs \<Longrightarrow> j < length cs \<Longrightarrow> mset (swap_step sub i j cs) = mset cs"
  by (simp add: swap_step_def mset_swap)

lemma swap_step_nth:
  "i < length cs \<Longrightarrow> j < length cs \<Longrightarrow> i < j \<Longrightarrow> q < length cs \<Longrightarrow>
   swap_step sub i j cs ! q =
     (if strict_subclass sub (cs ! i) (cs ! j)
      then (if q = i then cs ! j else if q = j then cs ! i else cs ! q)
      else cs ! q)"
  by (auto simp: swap_step_def class_ordering_neg nth_list_update)

lemma swap_step_ancestors_first:
  assumes "ancestors_first sub i cs" and "i < j" and "j < length cs"
  shows "ancestors_first sub i (swap_step sub i j cs)"
  unfolding ancestors_first_def
proof (intro allI impI)
  fix p q
  assume h: "p < i \<and> p < q \<and> q < length (swap_step sub i j cs)"
  then have q: "q < length cs" and p: "p < length cs" using assms by simp_all
  have i: "i < length cs" using assms by simp
  have pp: "swap_step sub i j cs ! p = cs ! p"
    using h assms by (simp add: swap_step_nth [OF i assms(3) assms(2) p])
  have "\<exists>q'. p < q' \<and> q' < length cs \<and> swap_step sub i j cs ! q = cs ! q'"
  proof (cases "strict_subclass sub (cs ! i) (cs ! j)")
    case True
    then show ?thesis
      using h assms q i by (auto simp: swap_step_nth [OF i assms(3) assms(2) q]
          intro: exI [of _ i] exI [of _ j] exI [of _ q])
  next
    case False
    then show ?thesis
      using h q by (auto simp: swap_step_nth [OF i assms(3) assms(2) q] intro: exI [of _ q])
  qed
  then obtain q' where "p < q'" "q' < length cs" "swap_step sub i j cs ! q = cs ! q'" by blast
  then show "\<not> strict_subclass sub (swap_step sub i j cs ! p) (swap_step sub i j cs ! q)"
    using assms(1) h pp by (simp add: ancestors_first_def)
qed

lemma swap_step_scanned:
  assumes po: "partial_order sub" and "scanned sub i k cs" and "i < k" and "k < length cs"
  shows "scanned sub i (Suc k) (swap_step sub i k cs)"
  unfolding scanned_def
proof (intro allI impI)
  fix j
  assume h: "i < j \<and> j < Suc k"
  have i: "i < length cs" and kk: "k < length cs" using assms by simp_all
  have j: "j < length cs" using h assms by simp
  note nth = swap_step_nth [OF i kk assms(3)]
  show "\<not> strict_subclass sub (swap_step sub i k cs ! i) (swap_step sub i k cs ! j)"
  proof (cases "strict_subclass sub (cs ! i) (cs ! k)")
    case False
    then have "swap_step sub i k cs = cs"
      by (simp add: swap_step_def class_ordering_neg)
    then show ?thesis
      using False h assms(2) by (cases "j = k") (auto simp: scanned_def)
  next
    case True
    have ni: "swap_step sub i k cs ! i = cs ! k"
      using True assms(3) by (simp add: nth [OF i])
    have nk: "swap_step sub i k cs ! k = cs ! i"
      using True assms(3) by (simp add: nth [OF kk])
    show ?thesis
    proof (cases "j = k")
      case jk: True
      have "\<not> strict_subclass sub (cs ! k) (cs ! i)"
        using True po unfolding strict_subclass_def partial_order_def by blast
      then show ?thesis using jk ni nk by simp
    next
      case False
      then have "j < k" using h by simp
      then have old: "\<not> strict_subclass sub (cs ! i) (cs ! j)"
        using assms(2) h by (simp add: scanned_def)
      have nj: "swap_step sub i k cs ! j = cs ! j"
        using True False h by (simp add: nth [OF j])
      have "\<not> strict_subclass sub (cs ! k) (cs ! j)"
      proof
        assume s: "strict_subclass sub (cs ! k) (cs ! j)"
        have "sub (cs ! i) (cs ! j)"
          using True s po unfolding strict_subclass_def partial_order_def by blast
        moreover have "cs ! i \<noteq> cs ! j"
          using True s po unfolding strict_subclass_def partial_order_def by metis
        ultimately show False using old by (simp add: strict_subclass_def)
      qed
      then show ?thesis using ni nj by simp
    qed
  qed
qed

lemma fold_upt_Suc: "a \<le> b \<Longrightarrow> fold f [a ..< Suc b] x = f b (fold f [a ..< b] x)"
  by simp

lemma inner_loop_inv:
  assumes po: "partial_order sub"
  shows "i < k \<Longrightarrow> k \<le> length cs \<Longrightarrow>
         length (inner_loop sub i k cs) = length cs \<and>
         mset (inner_loop sub i k cs) = mset cs \<and>
         (ancestors_first sub i cs \<longrightarrow> ancestors_first sub i (inner_loop sub i k cs)) \<and>
         scanned sub i k (inner_loop sub i k cs)"
proof (induction k)
  case 0
  then show ?case by simp
next
  case (Suc k)
  show ?case
  proof (cases "i < k")
    case False
    then have "k = i" using Suc.prems by simp
    then show ?thesis by (auto simp: inner_loop_def scanned_def)
  next
    case True
    let ?cs = "inner_loop sub i k cs"
    have ih: "length ?cs = length cs" "mset ?cs = mset cs"
      "ancestors_first sub i cs \<longrightarrow> ancestors_first sub i ?cs" "scanned sub i k ?cs"
      using Suc.IH [OF True] Suc.prems by simp_all
    have step: "inner_loop sub i (Suc k) cs = swap_step sub i k ?cs"
      using True by (simp add: inner_loop_def)
    have k: "k < length ?cs" using Suc.prems ih by simp
    have i: "i < length ?cs" using True k by simp
    have "mset (swap_step sub i k ?cs) = mset cs"
      using swap_step_mset [OF i k] ih by simp
    moreover have "ancestors_first sub i cs \<longrightarrow> ancestors_first sub i (swap_step sub i k ?cs)"
      using swap_step_ancestors_first [OF _ True k] ih by blast
    moreover have "scanned sub i (Suc k) (swap_step sub i k ?cs)"
      using swap_step_scanned [OF po ih(4) True k] .
    ultimately show ?thesis using step ih by simp
  qed
qed

lemma outer_loop_inv:
  assumes po: "partial_order sub"
  shows "k \<le> length cs \<Longrightarrow>
         length (outer_loop sub k cs) = length cs \<and>
         mset (outer_loop sub k cs) = mset cs \<and>
         ancestors_first sub k (outer_loop sub k cs)"
proof (induction k)
  case 0
  then show ?case by (simp add: outer_loop_def ancestors_first_def)
next
  case (Suc k)
  let ?cs = "outer_loop sub k cs"
  have ih: "length ?cs = length cs" "mset ?cs = mset cs" "ancestors_first sub k ?cs"
    using Suc by simp_all
  have step: "outer_loop sub (Suc k) cs = inner_loop sub k (length ?cs) ?cs"
    by (simp add: outer_loop_def inner_loop_def)
  have k: "k < length ?cs" using Suc.prems ih by simp
  have inner: "length (inner_loop sub k (length ?cs) ?cs) = length ?cs"
    "mset (inner_loop sub k (length ?cs) ?cs) = mset ?cs"
    "ancestors_first sub k (inner_loop sub k (length ?cs) ?cs)"
    "scanned sub k (length ?cs) (inner_loop sub k (length ?cs) ?cs)"
    using inner_loop_inv [OF po k, of ?cs] ih by simp_all
  have "ancestors_first sub (Suc k) (inner_loop sub k (length ?cs) ?cs)"
    using inner(1,3,4) unfolding ancestors_first_def scanned_def
    by (metis less_Suc_eq)
  then show ?case using step inner ih by simp
qed

lemma reorder_classes_outer: "reorder_classes sub cs = outer_loop sub (length cs) cs"
  by (simp add: reorder_classes_def outer_loop_def)

text \<open>
  C7. After the reordering step the class list is a rearrangement of the discovered
  classes in which no class stands before one of its strict ancestors: whenever \<open>B\<close> is a
  strict ancestor of \<open>A\<close>, every occurrence of \<open>B\<close> is before every occurrence of \<open>A\<close>,
  whatever the discovery order was. In particular the discovery order \<open>[A, B]\<close> with \<open>A\<close>
  derived from \<open>B\<close> becomes \<open>[B, A]\<close>.
\<close>

theorem reorder_classes_ancestors_first:
  assumes "partial_order issubclass"
  shows "mset (reorder_classes issubclass classes) = mset classes \<and>
         (\<forall>i j. i < j \<and> j < length classes \<longrightarrow>
            \<not> strict_subclass issubclass (reorder_classes issubclass classes ! i)
                                          (reorder_classes issubclass classes ! j)) \<and>
         (\<forall>A B. strict_subclass issubclass A B \<longrightarrow> reorder_classes issubclass [A, B] = [B, A])"
proof -
  have inv: "length (reorder_classes issubclass classes) = length classes"
    "mset (reorder_classes issubclass classes) = mset classes"
    "ancestors_first issubclass (length classes) (reorder_classes issubclass classes)"
    using outer_loop_inv [OF assms, of "length classes" classes]
    by (simp_all add: reorder_classes_outer)
  have "\<forall>i j. i < j \<and> j < length classes \<longrightarrow>
            \<not> strict_subclass issubclass (reorder_classes issubclass classes ! i)
                                          (reorder_classes issubclass classes ! j)"
    using inv(1,3) unfolding ancestors_first_def by auto
  moreover have "\<forall>A B. strict_subclass issubclass A B \<longrightarrow> reorder_classes issubclass [A, B] = [B, A]"
    by (simp add: reorder_classes_def swap_step_def class_ordering_neg upt_rec)
  ultimately show ?thesis using inv(2) by simp
qed

lemma example_issubclass_partial_order: "partial_order example_issubclass"
  unfolding partial_order_def example_issubclass_def by auto

theorem reorder_classes_ancestors_first_witness:
  "partial_order example_issubclass \<and>
   strict_subclass example_issubclass ''A'' ''B'' \<and>
   reorder_classes example_issubclass [''A'', ''B''] = [''B'', ''A''] \<and>
   mset (reorder_classes example_issubclass [''object'', ''A'', ''B''])
     = mset [''object'', ''A'', ''B''] \<and>
   \<not> strict_subclass example_issubclass
        (reorder_classes example_issubclass [''object'', ''A'', ''B''] ! 0)
        (reorder_classes example_issubclass [''object'', ''A'', ''B''] ! 2)"
proof -
  have s: "strict_subclass example_issubclass ''A'' ''B''"
    by (simp add: strict_subclass_def example_issubclass_def)
  show ?thesis
    using s example_issubclass_partial_order
      reorder_classes_ancestors_first [OF example_issubclass_partial_order, of "[''A'', ''B'']"]
      reorder_classes_ancestors_first [OF example_issubclass_partial_order,
        of "[''object'', ''A'', ''B'']"]
    by auto
qed

subsection \<open>The signatures of a routine\<close>

lemma list_of_set_props:
  "distinct (list_of_set h xs)" "set (list_of_set h xs) = set xs"
  by (simp_all add: list_of_set_def)

lemma sorted_signatures:
  "distinct (sort_key args (list_of_set h xs)) \<and>
   set (sort_key args (list_of_set h xs)) = set xs \<and>
   sorted (map args (sort_key args (list_of_set h xs)))"
  by (simp add: list_of_set_props)

lemma function_signatures_sorted:
  assumes "function_signatures_from_docstring ext nm doc mn st = Inr (sigs, st')"
  shows "distinct sigs \<and> sorted (map args sigs)"
proof (cases doc)
  case None
  then show ?thesis using assms by (simp add: function_signatures_from_docstring_def)
next
  case (Some d)
  then show ?thesis
    using assms
    by (auto simp: function_signatures_from_docstring_def bindE_def Let_def list_of_set_props
        split: sum.splits prod.splits)
qed

lemma match_line1:
  "re_match (signature_regex ''f'') ''1. f(a: int) -> int''
   = Some \<lparr>whole = ''1. f(a: int) -> int'',
       captured = [(''rtype'', ''int''), (''args'', ''a: int''), (''overload_number'', ''1'')]\<rparr>"
  by (simp add: regex_defs char_class_defs engine_defs)

lemma match_line2:
  "re_match (signature_regex ''f'') ''2. f(a: float) -> float''
   = Some \<lparr>whole = ''2. f(a: float) -> float'',
       captured = [(''rtype'', ''float''), (''args'', ''a: float''), (''overload_number'', ''2'')]\<rparr>"
  by (simp add: regex_defs char_class_defs engine_defs)

lemma init_int:
  "\<not> USE_BOOST_PYTHON st \<Longrightarrow> ast_parse ext ''def f(a: int) -> int: ...'' = None \<Longrightarrow>
   FunctionSignature_init ext ''f'' ''a: int'' ''int'' True st
   = Inr (\<lparr>name = ''f'', args = ''a: int'', rtype = ''int''\<rparr>, st)"
  by (simp add: FunctionSignature_init_def assemble_def replace_default_pybind11_repr_def
        replacement_def regex_defs char_class_defs engine_defs log_invalid_defaults_def
        validate_syntax_def function_def_str_def)

lemma init_float:
  "\<not> USE_BOOST_PYTHON st \<Longrightarrow> ast_parse ext ''def f(a: float) -> float: ...'' = None \<Longrightarrow>
   FunctionSignature_init ext ''f'' ''a: float'' ''float'' True st
   = Inr (\<lparr>name = ''f'', args = ''a: float'', rtype = ''float''\<rparr>, st)"
  by (simp add: FunctionSignature_init_def assemble_def replace_default_pybind11_repr_def
        replacement_def regex_defs char_class_defs engine_defs log_invalid_defaults_def
        validate_syntax_def function_def_str_def)

lemma overloads_lines:
  "\<not> USE_BOOST_PYTHON st \<Longrightarrow> ast_parse ext ''def f(a: int) -> int: ...'' = None \<Longrightarrow>
   ast_parse ext ''def f(a: float) -> float: ...'' = None \<Longrightarrow>
   signatures_of_lines ext ''f'' (split overloads_doc nl) st
   = Inr ([\<lparr>name = ''f'', args = ''a: int'', rtype = ''int''\<rparr>,
           \<lparr>name = ''f'', args = ''a: float'', rtype = ''float''\<rparr>], st)"
proof -
  assume a: "\<not> USE_BOOST_PYTHON st" "ast_parse ext ''def f(a: int) -> int: ...'' = None"
    "ast_parse ext ''def f(a: float) -> float: ...'' = None"
  have s: "split overloads_doc nl = [''1. f(a: int) -> int'', ''2. f(a: float) -> float'']"
    by (simp add: overloads_doc_def nl_def split_def)
  show ?thesis
    unfolding s
    by (simp add: match_line1 match_line2 group_text_def group_def init_int [OF a(1,2)]
        init_float [OF a(1,3)] bindE_def)
qed

lemma strip_m:
  "strip_module_name ''m'' ''a: int'' = ''a: int''" "strip_module_name ''m'' ''int'' = ''int''"
  "strip_module_name ''m'' ''a: float'' = ''a: float''" "strip_module_name ''m'' ''float'' = ''float''"
  by (simp_all add: strip_module_name_def char_class_defs engine_defs)

lemma replacements_plain:
  "apply_classname_replacements b ''a: int'' = ''a: int''"
  "apply_classname_replacements b ''int'' = ''int''"
  "apply_classname_replacements b ''a: float'' = ''a: float''"
  "apply_classname_replacements b ''float'' = ''float''"
  by (simp_all add: apply_classname_replacements_def regex_defs char_class_defs engine_defs)

lemma overloads_signatures:
  assumes "hooks ext = []" "\<not> USE_BOOST_PYTHON st" "ast_parse ext ''def f(a: int) -> int: ...'' = None"
   "ast_parse ext ''def f(a: float) -> float: ...'' = None"
  shows "function_signatures_from_docstring ext ''f'' (Some overloads_doc) ''m'' st
   = Inr ([\<lparr>name = ''f'', args = ''a: float'', rtype = ''float''\<rparr>,
           \<lparr>name = ''f'', args = ''a: int'', rtype = ''int''\<rparr>], st)"
  using assms
  by (simp add: function_signatures_from_docstring_def overloads_lines bindE_def strip_m
        replacements_plain list_of_set_def)

lemma sanitize_overloads:
  "hooks ext = [] \<Longrightarrow> sanitize_docstring ext (Some overloads_doc) = []"
  by (simp add: sanitize_docstring_def remove_signatures_def overloads_doc_def nl_def split_def
        remove_signatures_regex_def parens_def char_class_defs engine_defs rstrip_chars_def)

lemma format_def_line:
  "format ''def {name}({args}) -> {rtype}:'' [] [(''name'', n), (''args'', a), (''rtype'', r)]
   = Inr (''def '' @ n @ ''('' @ a @ '') -> '' @ r @ '':'')"
  by (simp add: format_def field_value_def)

lemma indent_pass: "indent ''pass'' = ''    pass''"
  by (simp add: indent_def split_def nl_def indent_line_def INDENT_def numeral_eq_Suc)

lemma overloads_rendered:
  assumes "hooks ext = []"
  shows "FreeFunctionStubsGenerator_to_lines ext
     \<lparr>fn_name = ''f'', member_doc = Some overloads_doc,
      signatures = [\<lparr>name = ''f'', args = ''a: float'', rtype = ''float''\<rparr>,
                    \<lparr>name = ''f'', args = ''a: int'', rtype = ''int''\<rparr>]\<rparr>
   = Inr [''@typing.overload'', ''def f(a: float) -> float:'', ''    pass'',
          ''@typing.overload'', ''def f(a: int) -> int:'', ''    pass'']"
  by (simp add: FreeFunctionStubsGenerator_to_lines_def sanitize_overloads [OF assms]
        format_def_line indent_pass bindE_def)

text \<open>
  C5. The list of signatures extracted from the docstring of a routine has no duplicates
  (two signatures are equal when name, argument text and return text agree) and is
  sorted by argument text; the last step of the extraction keeps every signature and
  drops only repetitions, whatever order the set gives. In particular the docstring with
  the two lines \<open>1. f(a: int) -> int\<close> and \<open>2. f(a: float) -> float\<close> yields exactly two
  signatures, \<open>a: float\<close> before \<open>a: int\<close>, and each is rendered after an overload marker.
\<close>

theorem signatures_deduplicated_sorted:
  "(function_signatures_from_docstring ext nm doc mn st = Inr (sigs, st') \<longrightarrow>
      distinct sigs \<and> sorted (map args sigs)) \<and>
   (distinct (sort_key args (list_of_set h xs)) \<and>
    set (sort_key args (list_of_set h xs)) = set xs \<and>
    sorted (map args (sort_key args (list_of_set h xs)))) \<and>
   (hooks ext = [] \<and> \<not> USE_BOOST_PYTHON st \<and>
    ast_parse ext ''def f(a: int) -> int: ...'' = None \<and>
    ast_parse ext ''def f(a: float) -> float: ...'' = None \<longrightarrow>
      function_signatures_from_docstring ext ''f'' (Some overloads_doc) ''m'' st
        = Inr ([\<lparr>name = ''f'', args = ''a: float'', rtype = ''float''\<rparr>,
                \<lparr>name = ''f'', args = ''a: int'', rtype = ''int''\<rparr>], st) \<and>
      FreeFunctionStubsGenerator_to_lines ext
        \<lparr>fn_name = ''f'', member_doc = Some overloads_doc,
         signatures = [\<lparr>name = ''f'', args = ''a: float'', rtype = ''float''\<rparr>,
                       \<lparr>name = ''f'', args = ''a: int'', rtype = ''int''\<rparr>]\<rparr>
        = Inr [''@typing.overload'', ''def f(a: float) -> float:'', ''    pass'',
               ''@typing.overload'', ''def f(a: int) -> int:'', ''    pass''])"
  using function_signatures_sorted [of ext nm doc mn st sigs st'] sorted_signatures [of h xs]
    overloads_signatures [of ext st] overloads_rendered [of ext]
  by blast

theorem signatures_deduplicated_sorted_witness:
  "hooks accept_all = [] \<and> \<not> USE_BOOST_PYTHON initial_state \<and>
   ast_parse accept_all ''def f(a: int) -> int: ...'' = None \<and>
   ast_parse accept_all ''def f(a: float) -> float: ...'' = None \<and>
   function_signatures_from_docstring accept_all ''f'' (Some overloads_doc) ''m'' initial_state
     = Inr ([\<lparr>name = ''f'', args = ''a: float'', rtype = ''float''\<rparr>,
             \<lparr>name = ''f'', args = ''a: int'', rtype = ''int''\<rparr>], initial_state) \<and>
   distinct [\<lparr>name = ''f'', args = ''a: float'', rtype = ''float''\<rparr>,
             \<lparr>name = ''f'', args = ''a: int'', rtype = ''int''\<rparr>] \<and>
   sorted (map args [\<lparr>name = ''f'', args = ''a: float'', rtype = ''float''\<rparr>,
                     \<lparr>name = ''f'', args = ''a: int'', rtype = ''int''\<rparr>]) \<and>
   FreeFunctionStubsGenerator_to_lines accept_all
     \<lparr>fn_name = ''f'', member_doc = Some overloads_doc,
      signatures = [\<lparr>name = ''f'', args = ''a: float'', rtype = ''float''\<rparr>,
                    \<lparr>name = ''f'', args = ''a: int'', rtype = ''int''\<rparr>]\<rparr>
     = Inr [''@typing.overload'', ''def f(a: float) -> float:'', ''    pass'',
            ''@typing.overload'', ''def f(a: int) -> int:'', ''    pass'']"
proof -
  have h: "hooks accept_all = []" "\<not> USE_BOOST_PYTHON initial_state"
    "ast_parse accept_all ''def f(a: int) -> int: ...'' = None"
    "ast_parse accept_all ''def f(a: float) -> float: ...'' = None"
    by (simp_all add: accept_all_def initial_state_def)
  note t = signatures_deduplicated_sorted [of accept_all "''f''" "Some overloads_doc" "''m''"
      initial_state "[\<lparr>name = ''f'', args = ''a: float'', rtype = ''float''\<rparr>,
             \<lparr>name = ''f'', args = ''a: int'', rtype = ''int''\<rparr>]" initial_state]
  show ?thesis using h t by blast
qed

subsection \<open>Matching and substitution\<close>

lemma match_same_text:
  "no_lookbehind r \<Longrightarrow> same_text m1 m2 \<Longrightarrow> (\<And>x y. same_text x y \<Longrightarrow> k1 x = k2 y) \<Longrightarrow>
   match r k1 m1 = match r k2 m2"
proof (induction r k1 m1 arbitrary: k2 m2 rule: match.induct)
  case (1 w k m)
  have r: "rest m = rest m2" using "1.prems"(2) by (simp add: same_text_def)
  have "k (m\<lparr>prev := (if w = [] then prev m else Some (last w)),
              rest := drop (length w) (rest m)\<rparr>)
        = k2 (m2\<lparr>prev := (if w = [] then prev m2 else Some (last w)),
              rest := drop (length w) (rest m2)\<rparr>)"
    using "1.prems"(2) by (intro "1.prems"(3)) (simp add: same_text_def)
  then show ?case using r by simp
next
  case (2 cs k m)
  have r: "rest m = rest m2" using "2.prems"(2) by (simp add: same_text_def)
  have "k (step m c t) = k2 (step m2 c t)" for c t
    using "2.prems"(2) by (intro "2.prems"(3)) (simp add: same_text_def step_def)
  then show ?case using r by (simp split: list.splits)
next
  case (3 cs k m)
  have r: "rest m = rest m2" using "3.prems"(2) by (simp add: same_text_def)
  have "k (step m c t) = k2 (step m2 c t)" for c t
    using "3.prems"(2) by (intro "3.prems"(3)) (simp add: same_text_def step_def)
  then show ?case using r by (simp split: list.splits)
next
  case (4 k m)
  have r: "rest m = rest m2" using "4.prems"(2) by (simp add: same_text_def)
  have "k (step m c t) = k2 (step m2 c t)" for c t
    using "4.prems"(2) by (intro "4.prems"(3)) (simp add: same_text_def step_def)
  then show ?case using r by (simp split: list.splits)
next
  case (5 a b k m)
  have na: "no_lookbehind a" and nb: "no_lookbehind b" using "5.prems"(1) by simp_all
  have b: "match b k x = match b k2 y" if "same_text x y" for x y
    using nb that "5.prems"(3) by (rule "5.IH"(1))
  have "match a (match b k) m = match a (match b k2) m2"
    using na "5.prems"(2) b by (rule "5.IH"(2))
  then show ?case by simp
next
  case (6 a b k m)
  have na: "no_lookbehind a" and nb: "no_lookbehind b" using "6.prems"(1) by simp_all
  have a: "match a k m = match a k2 m2"
    using na "6.prems"(2) "6.prems"(3) by (rule "6.IH"(1))
  show ?case
  proof (cases "match a k m")
    case None
    have "match b k m = match b k2 m2"
      using None nb "6.prems"(2) "6.prems"(3) by (rule "6.IH"(2))
    then show ?thesis using a None by simp
  next
    case (Some v)
    then show ?thesis using a by simp
  qed
next
  case (7 a k m)
  have na: "no_lookbehind a" using "7.prems"(1) by simp
  have "match a k m = match a k2 m2"
    using na "7.prems"(2) "7.prems"(3) by (rule "7.IH")
  moreover have "k m = k2 m2" using "7.prems"(2) by (rule "7.prems"(3))
  ultimately show ?case by (simp split: option.splits)
next
  case (8 a k m)
  have na: "no_lookbehind a" using "8.prems"(1) by simp
  have l: "length (rest m) = length (rest m2)" using "8.prems"(2) by (simp add: same_text_def)
  have inner: "(if length (rest x) < length (rest m) then match (Star a) k x else None) =
          (if length (rest y) < length (rest m2) then match (Star a) k2 y else None)"
    if xy: "same_text x y" for x y
  proof (cases "length (rest x) < length (rest m)")
    case True
    have lx: "length (rest x) = length (rest y)" using xy by (simp add: same_text_def)
    have "match (Star a) k x = match (Star a) k2 y"
      using True "8.prems"(1) xy "8.prems"(3) by (rule "8.IH"(1))
    then show ?thesis using True l lx by simp
  next
    case False
    have lx: "length (rest x) = length (rest y)" using xy by (simp add: same_text_def)
    show ?thesis using False l lx by simp
  qed
  have "match a (\<lambda>m'. if length (rest m') < length (rest m) then match (Star a) k m' else None) m
      = match a (\<lambda>m'. if length (rest m') < length (rest m2) then match (Star a) k2 m' else None) m2"
    using na "8.prems"(2) inner by (rule "8.IH"(2))
  moreover have "k m = k2 m2" using "8.prems"(2) by (rule "8.prems"(3))
  ultimately show ?case by (simp split: option.splits)
next
  case (9 n a k m)
  have na: "no_lookbehind a" using "9.prems"(1) by simp
  have r: "rest m = rest m2" using "9.prems"(2) by (simp add: same_text_def)
  have c: "capture n m k x = capture n m2 k2 y" if "same_text x y" for x y
    unfolding capture_def using that r by (intro "9.prems"(3)) (simp add: same_text_def)
  have "match a (capture n m k) m = match a (capture n m2 k2) m2"
    using na "9.prems"(2) c by (rule "9.IH")
  then show ?case by simp
next
  case (10 cs k m)
  then show ?case by simp
next
  case (11 cs k m)
  have r: "rest m = rest m2" using "11.prems"(2) by (simp add: same_text_def)
  have "k m = k2 m2" using "11.prems"(2) by (rule "11.prems"(3))
  then show ?case using r by (simp split: list.splits)
next
  case (12 k m)
  then show ?case by simp
next
  case (13 k m)
  have r: "rest m = rest m2" using "13.prems"(2) by (simp add: same_text_def)
  have "k m = k2 m2" using "13.prems"(2) by (rule "13.prems"(3))
  then show ?case using r by simp
qed

lemma re_scan_from_prev_must:
  assumes "no_lookbehind r"
  shows "re_scan_from r True p s = re_scan_from r True q s"
proof -
  let ?k = "\<lambda>m'. if True \<and> \<not> length (rest m') < length s then None
                 else Some (rest m', match_obj_of s m')"
  have "match r ?k \<lparr>prev = p, rest = s, groups = []\<rparr> = match r ?k \<lparr>prev = q, rest = s, groups = []\<rparr>"
    by (rule match_same_text [OF assms]) (simp_all add: same_text_def match_obj_of_def)
  then show ?thesis
    apply (subst re_scan_from.simps [of r True q s])
    apply (subst re_scan_from.simps [of r True p s])
    apply (simp del: re_scan_from.simps split: option.splits prod.splits)
    done
qed

lemma re_scan_from_prev:
  assumes "no_lookbehind r"
  shows "re_scan_from r must p s = re_scan_from r must q s"
proof (cases must)
  case True
  then show ?thesis using re_scan_from_prev_must [OF assms] by simp
next
  case False
  let ?k = "\<lambda>m'. if False \<and> \<not> length (rest m') < length s then None
                 else Some (rest m', match_obj_of s m')"
  have "match r ?k \<lparr>prev = p, rest = s, groups = []\<rparr> = match r ?k \<lparr>prev = q, rest = s, groups = []\<rparr>"
    by (rule match_same_text [OF assms]) (simp_all add: same_text_def match_obj_of_def)
  then show ?thesis
    using re_scan_from_prev_must [OF assms, of p s q] False
    apply (subst re_scan_from.simps [of r must q s])
    apply (subst re_scan_from.simps [of r must p s])
    apply (simp del: re_scan_from.simps split: option.splits prod.splits)
    done
qed

lemma re_scan_from_False:
  "re_scan_from r False p s =
     (case match_at r p s of
        None \<Rightarrow> (case s of [] \<Rightarrow> [] | c # cs \<Rightarrow> Inl c # re_scan_from r False (Some c) cs)
      | Some (s', mo) \<Rightarrow>
          Inr mo # (if length s' < length s then re_scan_from r False (Some (last (whole mo))) s'
                    else re_scan_from r True p s))"
  by (subst re_scan_from.simps) (simp add: match_at_def del: re_scan_from.simps)

lemma scan_miss:
  "match_at r p (c # cs) = None \<Longrightarrow>
   re_scan_from r False p (c # cs) = Inl c # re_scan_from r False (Some c) cs"
  by (subst re_scan_from_False) simp

lemma scan_end: "match_at r p [] = None \<Longrightarrow> re_scan_from r False p [] = []"
  by (subst re_scan_from_False) simp

lemma scan_hit:
  "match_at r p s = Some (s', mo) \<Longrightarrow> length s' < length s \<Longrightarrow>
   re_scan_from r False p s = Inr mo # re_scan_from r False (Some (last (whole mo))) s'"
  by (subst re_scan_from_False) simp

lemma sub_miss:
  "match_at r p (c # cs) = None \<Longrightarrow> sub_from r f p (c # cs) = c # sub_from r f (Some c) cs"
  by (simp add: sub_from_def scan_miss del: re_scan_from.simps)

lemma sub_end: "match_at r p [] = None \<Longrightarrow> sub_from r f p [] = []"
  by (simp add: sub_from_def scan_end del: re_scan_from.simps)

lemma sub_hit:
  "match_at r p s = Some (s', mo) \<Longrightarrow> length s' < length s \<Longrightarrow>
   sub_from r f p s = f mo @ sub_from r f (Some (last (whole mo))) s'"
  by (simp add: sub_from_def scan_hit del: re_scan_from.simps)

lemma matches_miss:
  "match_at r p (c # cs) = None \<Longrightarrow> matches_from r p (c # cs) = matches_from r (Some c) cs"
  by (simp add: matches_from_def scan_miss del: re_scan_from.simps)

lemma matches_hit:
  "match_at r p s = Some (s', mo) \<Longrightarrow> length s' < length s \<Longrightarrow>
   matches_from r p s = mo # matches_from r (Some (last (whole mo))) s'"
  by (simp add: matches_from_def scan_hit del: re_scan_from.simps)

lemma re_sub_sub_from: "re_sub r f s = sub_from r f None s"
  by (simp add: re_sub_def re_scan_def sub_from_def del: re_scan_from.simps)

lemma re_finditer_matches_from: "re_finditer r s = matches_from r None s"
  by (simp add: re_finditer_def re_scan_def matches_from_def del: re_scan_from.simps)

lemma sub_from_prev: "no_lookbehind r \<Longrightarrow> sub_from r f p s = re_sub r f s"
  using re_scan_from_prev [of r False p s None]
  by (simp add: re_sub_sub_from sub_from_def del: re_scan_from.simps)

lemma matches_from_prev: "no_lookbehind r \<Longrightarrow> matches_from r p s = re_finditer r s"
  using re_scan_from_prev [of r False p s None]
  by (simp add: re_finditer_matches_from matches_from_def del: re_scan_from.simps)

lemma star_in_greedy:
  assumes "list_all (in_class cs) w" and "t = [] \<or> \<not> in_class cs (hd t)"
    and "\<And>q. k \<lparr>prev = q, rest = t, groups = g\<rparr> = Some v"
  shows "match (Star (In cs)) k \<lparr>prev = p, rest = w @ t, groups = g\<rparr> = Some v"
  using assms(1)
proof (induction w arbitrary: p)
  case Nil
  show ?case using assms(2,3) by (cases t) (simp_all add: step_def)
next
  case (Cons c w)
  then show ?case by (simp add: step_def)
qed

lemma star_notin_greedy:
  assumes "list_all (\<lambda>c. \<not> in_class cs c) w" and "t = [] \<or> in_class cs (hd t)"
    and "\<And>q. k \<lparr>prev = q, rest = t, groups = g\<rparr> = Some v"
  shows "match (Star (NotIn cs)) k \<lparr>prev = p, rest = w @ t, groups = g\<rparr> = Some v"
  using assms(1)
proof (induction w arbitrary: p)
  case Nil
  show ?case using assms(2,3) by (cases t) (simp_all add: step_def)
next
  case (Cons c w)
  then show ?case by (simp add: step_def)
qed

lemma plus_in_greedy:
  assumes "w \<noteq> []" "list_all (in_class cs) w" and "t = [] \<or> \<not> in_class cs (hd t)"
    and "\<And>q. k \<lparr>prev = q, rest = t, groups = g\<rparr> = Some v"
  shows "match (Plus (In cs)) k \<lparr>prev = p, rest = w @ t, groups = g\<rparr> = Some v"
proof -
  obtain c w' where w: "w = c # w'" using assms(1) by (cases w) auto
  have "match (Star (In cs)) k \<lparr>prev = Some c, rest = w' @ t, groups = g\<rparr> = Some v"
    using assms w by (intro star_in_greedy) simp_all
  then show ?thesis using assms(2) w by (simp add: Plus_def step_def del: match.simps(8))
qed

lemma plus_notin_greedy:
  assumes "w \<noteq> []" "list_all (\<lambda>c. \<not> in_class cs c) w" and "t = [] \<or> in_class cs (hd t)"
    and "\<And>q. k \<lparr>prev = q, rest = t, groups = g\<rparr> = Some v"
  shows "match (Plus (NotIn cs)) k \<lparr>prev = p, rest = w @ t, groups = g\<rparr> = Some v"
proof -
  obtain c w' where w: "w = c # w'" using assms(1) by (cases w) auto
  have "match (Star (NotIn cs)) k \<lparr>prev = Some c, rest = w' @ t, groups = g\<rparr> = Some v"
    using assms w by (intro star_notin_greedy) simp_all
  then show ?thesis using assms(2) w by (simp add: Plus_def step_def del: match.simps(8))
qed

lemma match_obj_of_append:
  "match_obj_of (a @ b) \<lparr>prev = q, rest = b, groups = g\<rparr> = \<lparr>whole = a, captured = g\<rparr>"
  by (simp add: match_obj_of_def)

lemma capture_append:
  "capture n \<lparr>prev = p, rest = a @ b, groups = g0\<rparr> k \<lparr>prev = q, rest = b, groups = g\<rparr>
   = k \<lparr>prev = q, rest = b, groups = (n, a) # g\<rparr>"
  by (simp add: capture_def)

subsection \<open>Unsafe default values\<close>

lemma in_class_Word [simp]: "in_class [Word] c = is_word c"
  by (simp add: in_class_def)

lemma dotted_tail_greedy:
  assumes "\<forall>x \<in> set ws. is_identifier x"
    and "t = [] \<or> (hd t \<noteq> CHR ''.'' \<and> \<not> is_word (hd t))"
    and "\<And>q. k \<lparr>prev = q, rest = t, groups = g\<rparr> = Some v"
  shows "match (Star (Seq (Lit ''.'') (Plus (In [Word])))) k
           \<lparr>prev = p, rest = concat (map ((#) CHR ''.'') ws) @ t, groups = g\<rparr> = Some v"
  using assms(1)
proof (induction ws arbitrary: p)
  case Nil
  show ?case using assms(2,3) by (cases t) simp_all
next
  case (Cons x ws)
  let ?t' = "concat (map ((#) CHR ''.'') ws) @ t"
  let ?m = "\<lparr>prev = p, rest = CHR ''.'' # x @ ?t', groups = g\<rparr>"
  let ?K = "\<lambda>m'. if length (rest m') < length (rest ?m)
                  then match (Star (Seq (Lit ''.'') (Plus (In [Word])))) k m' else None"
  have x: "x \<noteq> []" "list_all (in_class [Word]) x"
    using Cons.prems by (simp_all add: is_identifier_def list_all_iff)
  have b: "?t' = [] \<or> \<not> in_class [Word] (hd ?t')"
    using assms(2) by (cases ws) (auto simp: is_word_def is_digit_def)
  have K: "?K \<lparr>prev = q, rest = ?t', groups = g\<rparr> = Some v" for q
    using Cons.IH [of q] Cons.prems by (simp del: match.simps(8))
  have "match (Plus (In [Word])) ?K \<lparr>prev = Some CHR ''.'', rest = x @ ?t', groups = g\<rparr> = Some v"
    using x b K by (rule plus_in_greedy)
  then have "match (Seq (Lit ''.'') (Plus (In [Word]))) ?K ?m = Some v"
    by (simp del: match.simps(8))
  then have "match (Star (Seq (Lit ''.'') (Plus (In [Word])))) k ?m = Some v"
    by (subst match.simps(8)) (simp del: match.simps(8))
  then show ?case by (simp del: match.simps(8))
qed

lemma hex_not_gt: "\<not> in_class hex_digit CHR ''>''"
  by (simp add: hex_digit_def in_class_def)

lemma object_repr_match:
  assumes w: "is_identifier w" and ws: "\<forall>x \<in> set ws. is_identifier x" and h: "hex_number address"
  shows "match_at default_pybind11_repr_re p (object_repr (qualified_name w ws) address @ post)
         = Some (post, \<lparr>whole = object_repr (qualified_name w ws) address,
                        captured = [(''class'', qualified_name w ws)]\<rparr>)"
proof -
  let ?cls = "qualified_name w ws"
  let ?tail = "concat (map ((#) CHR ''.'') ws)"
  let ?s = "object_repr ?cls address @ post"
  let ?v = "(post, \<lparr>whole = object_repr ?cls address, captured = [(''class'', ?cls)]\<rparr>)"
  let ?k = "\<lambda>m'. Some (rest m', match_obj_of ?s m')"
  let ?g = "[(''class'', ?cls)]"
  let ?r2 = "'' object at 0x'' @ address @ ''>'' @ post"
  let ?m1 = "\<lparr>prev = Some CHR ''<'', rest = w @ ?tail @ ?r2, groups = []\<rparr>"
  let ?R3 = "Seq (Lit '' object at 0x'') (Seq (Plus (In hex_digit)) (Lit ''>''))"
  have k: "match (Lit ''>'') ?k \<lparr>prev = q, rest = ''>'' @ post, groups = ?g\<rparr> = Some ?v" for q
    by (simp add: match_obj_of_append)
  have hx: "match (Plus (In hex_digit)) (match (Lit ''>'') ?k)
              \<lparr>prev = q, rest = address @ ''>'' @ post, groups = ?g\<rparr> = Some ?v" for q
    using h hex_not_gt k unfolding hex_number_def
    by (intro plus_in_greedy) simp_all
  have r3: "match ?R3 ?k \<lparr>prev = q, rest = ?r2, groups = ?g\<rparr> = Some ?v" for q
    using hx by (simp del: match.simps(8))
  have cap: "capture ''class'' ?m1 (match ?R3 ?k) \<lparr>prev = q, rest = ?r2, groups = []\<rparr> = Some ?v" for q
    using r3 [of q] capture_append [of "''class''" "Some CHR ''<''" "w @ ?tail" ?r2 "[]" "match ?R3 ?k" q "[]"]
    by (simp add: qualified_name_def del: match.simps)
  have tl: "match (Star (Seq (Lit ''.'') (Plus (In [Word])))) (capture ''class'' ?m1 (match ?R3 ?k))
              \<lparr>prev = q, rest = ?tail @ ?r2, groups = []\<rparr> = Some ?v" for q
    using ws cap by (intro dotted_tail_greedy) (simp_all add: is_word_def is_digit_def)
  have b: "?tail @ ?r2 = [] \<or> \<not> in_class [Word] (hd (?tail @ ?r2))"
    by (cases ws) (simp_all add: is_word_def is_digit_def)
  have "match (Plus (In [Word]))
          (match (Star (Seq (Lit ''.'') (Plus (In [Word])))) (capture ''class'' ?m1 (match ?R3 ?k)))
          ?m1 = Some ?v"
    using w b tl unfolding is_identifier_def
    by (intro plus_in_greedy) (simp_all add: list_all_iff)
  then have "match (Seqs [Lit ''<'',
                Group ''class'' (Seq (Plus (In [Word])) (Star (Seq (Lit ''.'') (Plus (In [Word]))))),
                Lit '' object at 0x'', Plus (In hex_digit), Lit ''>'']) ?k
             \<lparr>prev = p, rest = ?s, groups = []\<rparr> = Some ?v"
    by (simp add: object_repr_def qualified_name_def del: match.simps(8))
  then show ?thesis
    by (simp add: match_at_def default_pybind11_repr_re_def del: match.simps(8) Seqs.simps)
qed

lemma no_lookbehind_default_repr: "no_lookbehind default_pybind11_repr_re"
  by (simp add: default_pybind11_repr_re_def Plus_def)

lemma default_repr_miss:
  "c \<noteq> CHR ''<'' \<Longrightarrow> match_at default_pybind11_repr_re p (c # cs) = None"
  by (simp add: match_at_def default_pybind11_repr_re_def del: match.simps(8))

lemma default_repr_skip:
  "CHR ''<'' \<notin> set pre \<Longrightarrow>
   re_sub default_pybind11_repr_re f (pre @ s) = pre @ re_sub default_pybind11_repr_re f s \<and>
   re_finditer default_pybind11_repr_re (pre @ s) = re_finditer default_pybind11_repr_re s"
proof (induction pre)
  case Nil
  show ?case by simp
next
  case (Cons c pre)
  have m: "match_at default_pybind11_repr_re None (c # pre @ s) = None"
    using Cons.prems by (intro default_repr_miss) auto
  have "re_sub default_pybind11_repr_re f (c # pre @ s)
        = c # re_sub default_pybind11_repr_re f (pre @ s)"
    using sub_miss [OF m] by (simp add: re_sub_sub_from [symmetric] sub_from_prev no_lookbehind_default_repr)
  moreover have "re_finditer default_pybind11_repr_re (c # pre @ s)
        = re_finditer default_pybind11_repr_re (pre @ s)"
    using matches_miss [OF m]
    by (simp add: re_finditer_matches_from [symmetric] matches_from_prev no_lookbehind_default_repr)
  ultimately show ?case using Cons by simp
qed

lemma qualified_name_nonempty: "is_identifier w \<Longrightarrow> qualified_name w ws \<noteq> []"
  by (simp add: is_identifier_def qualified_name_def)

lemma object_repr_replaced:
  assumes "CHR ''<'' \<notin> set pre" "is_identifier w" "\<forall>x \<in> set ws. is_identifier x"
    "hex_number address"
  shows "replace_default_pybind11_repr (pre @ object_repr (qualified_name w ws) address @ post)
         = (object_repr (qualified_name w ws) address # fst (replace_default_pybind11_repr post),
            pre @ ''...'' @ snd (replace_default_pybind11_repr post))"
proof -
  let ?r = default_pybind11_repr_re
  let ?o = "object_repr (qualified_name w ws) address"
  let ?mo = "\<lparr>whole = ?o, captured = [(''class'', qualified_name w ws)]\<rparr>"
  have m: "match_at ?r None (?o @ post) = Some (post, ?mo)"
    using assms(2-4) by (rule object_repr_match)
  have l: "length post < length (?o @ post)" by (simp add: object_repr_def)
  have t: "truthy (group ?mo ''class'')"
    using qualified_name_nonempty [OF assms(2)] by (simp add: truthy_def group_def)
  have s: "re_sub ?r replacement (?o @ post) = ''...'' @ re_sub ?r replacement post"
    using sub_hit [OF m l, of replacement] t
    by (simp add: re_sub_sub_from [symmetric] sub_from_prev no_lookbehind_default_repr
        replacement_def)
  have f: "re_finditer ?r (?o @ post) = ?mo # re_finditer ?r post"
    using matches_hit [OF m l]
    by (simp add: re_finditer_matches_from [symmetric] matches_from_prev no_lookbehind_default_repr)
  show ?thesis
    using default_repr_skip [OF assms(1), of _ "?o @ post"] s f t
    by (simp add: replace_default_pybind11_repr_def)
qed

lemma replace_default_empty: "replace_default_pybind11_repr [] = ([], [])"
  by (simp add: replace_default_pybind11_repr_def default_pybind11_repr_re_def engine_defs)

lemma enum_default_replaced:
  "replace_default_pybind11_repr ''a: Color = <Color.RED: 1>'' = ([], ''a: Color = Color.RED'')"
  by (simp add: replace_default_pybind11_repr_def replacement_def regex_defs char_class_defs
        engine_defs)

lemma validate_syntax_defaults:
  "validate_syntax ext sig st = Inr (sig', st') \<Longrightarrow>
   n_invalid_default_values st' = n_invalid_default_values st"
  by (auto simp: validate_syntax_def except_SyntaxError_def Let_def logger_log_def
      split: option.splits parse_failure.splits if_splits)

lemma init_defaults:
  assumes "FunctionSignature_init ext nm ar rt True st = Inr (sig, st')"
  shows "n_invalid_default_values st'
         = n_invalid_default_values (log_invalid_defaults (fst (replace_default_pybind11_repr ar)) st)"
proof -
  obtain cand where
    "validate_syntax ext cand (log_invalid_defaults (fst (replace_default_pybind11_repr ar)) st)
     = Inr (sig, st')"
    using assms by (auto simp: FunctionSignature_init_def Let_def bindE_Inr)
  then show ?thesis by (rule validate_syntax_defaults)
qed

text \<open>
  C6 (as amended). When the first \<open><\<close> of the argument text of a signature begins the
  representation of an object, \<open><Name object at 0x...>\<close> with a dotted name of word
  characters and a hexadecimal address, validation replaces that representation by
  \<open>...\<close> and goes on with the text after it; the invalid-default counter is one higher
  after the diagnostic is logged, and so in the state of every call of the constructor
  that returns. With the alternate dialect off the rewritten text is the argument text
  of the candidate, and of the signature when the candidate parses.
\<close>

theorem object_default_replaced:
  assumes "CHR ''<'' \<notin> set pre" "is_identifier w" "\<forall>x \<in> set ws. is_identifier x"
    "hex_number address"
  shows "replace_default_pybind11_repr (pre @ object_repr (qualified_name w ws) address @ post)
           = (object_repr (qualified_name w ws) address # fst (replace_default_pybind11_repr post),
              pre @ ''...'' @ snd (replace_default_pybind11_repr post)) \<and>
         n_invalid_default_values
           (log_invalid_defaults
              (fst (replace_default_pybind11_repr
                      (pre @ object_repr (qualified_name w ws) address @ post))) st)
           = n_invalid_default_values st + 1 \<and>
         (\<forall>sig st'.
            FunctionSignature_init ext nm
              (pre @ object_repr (qualified_name w ws) address @ post) rt True st = Inr (sig, st') \<longrightarrow>
            n_invalid_default_values st' = n_invalid_default_values st + 1) \<and>
         assemble ext False nm (pre @ object_repr (qualified_name w ws) address @ post) rt
           = Inr \<lparr>name = nm, args = pre @ ''...'' @ snd (replace_default_pybind11_repr post),
                  rtype = rt\<rparr> \<and>
         (\<not> USE_BOOST_PYTHON st \<and>
          ast_parse ext (function_def_str
             \<lparr>name = nm, args = pre @ ''...'' @ snd (replace_default_pybind11_repr post),
              rtype = rt\<rparr>) = None \<longrightarrow>
          (\<exists>st'. FunctionSignature_init ext nm
                    (pre @ object_repr (qualified_name w ws) address @ post) rt True st
                  = Inr (\<lparr>name = nm, args = pre @ ''...'' @ snd (replace_default_pybind11_repr post),
                          rtype = rt\<rparr>, st')))"
proof -
  let ?a = "pre @ object_repr (qualified_name w ws) address @ post"
  let ?cand = "\<lparr>name = nm, args = pre @ ''...'' @ snd (replace_default_pybind11_repr post), rtype = rt\<rparr>"
  let ?st1 = "log_invalid_defaults (fst (replace_default_pybind11_repr ?a)) st"
  have r: "replace_default_pybind11_repr ?a
           = (object_repr (qualified_name w ws) address # fst (replace_default_pybind11_repr post),
              pre @ ''...'' @ snd (replace_default_pybind11_repr post))"
    using assms by (rule object_repr_replaced)
  have c1: "n_invalid_default_values ?st1 = n_invalid_default_values st + 1"
    by (simp add: r log_invalid_defaults_eq)
  have c2: "n_invalid_default_values st' = n_invalid_default_values st + 1"
    if "FunctionSignature_init ext nm ?a rt True st = Inr (sig, st')" for sig st'
    using init_defaults [OF that] c1 by simp
  have a: "assemble ext False nm ?a rt = Inr ?cand"
    by (simp add: assemble_def r)
  have i: "FunctionSignature_init ext nm ?a rt True st = Inr (?cand, ?st1)"
    if "\<not> USE_BOOST_PYTHON st" "ast_parse ext (function_def_str ?cand) = None"
  proof -
    have "assemble ext (USE_BOOST_PYTHON st) nm ?a rt = Inr ?cand" using a that(1) by simp
    then show ?thesis
      using that(2) by (simp add: FunctionSignature_init_assembled validate_syntax_ok)
  qed
  show ?thesis using r c1 c2 a i by blast
qed

theorem object_default_replaced_witness:
  "CHR ''<'' \<notin> set ''a: MyClass = '' \<and> is_identifier ''MyClass'' \<and> hex_number ''7fAB1020'' \<and>
   replace_default_pybind11_repr ''a: MyClass = <MyClass object at 0x7fAB1020>''
     = ([''<MyClass object at 0x7fAB1020>''], ''a: MyClass = ...'') \<and>
   n_invalid_default_values (log_invalid_defaults [''<MyClass object at 0x7fAB1020>''] initial_state)
     = 1 \<and>
   \<not> USE_BOOST_PYTHON initial_state \<and>
   ast_parse accept_all
     (function_def_str \<lparr>name = ''f'', args = ''a: MyClass = ...'', rtype = ''None''\<rparr>) = None \<and>
   (\<exists>st'. FunctionSignature_init accept_all ''f''
             ''a: MyClass = <MyClass object at 0x7fAB1020>'' ''None'' True initial_state
           = Inr (\<lparr>name = ''f'', args = ''a: MyClass = ...'', rtype = ''None''\<rparr>, st') \<and>
          n_invalid_default_values st' = 1)"
proof -
  have h: "CHR ''<'' \<notin> set ''a: MyClass = ''" "is_identifier ''MyClass''"
    "\<forall>x \<in> set []. is_identifier x" "hex_number ''7fAB1020''"
    by (simp_all add: is_identifier_def hex_number_def is_word_def is_digit_def hex_digit_def
        in_class_def)
  have b: "\<not> USE_BOOST_PYTHON initial_state" by (simp add: initial_state_def)
  have o: "''a: MyClass = '' @ object_repr (qualified_name ''MyClass'' []) ''7fAB1020'' @ []
           = ''a: MyClass = <MyClass object at 0x7fAB1020>''"
    by (simp add: object_repr_def qualified_name_def)
  have p: "ast_parse accept_all s = None" for s by (simp add: accept_all_def)
  have n: "n_invalid_default_values initial_state = 0" by (simp add: initial_state_def)
  note t = object_default_replaced [OF h, of "[]" initial_state accept_all "''f''" "''None''",
             unfolded o]
  have r: "replace_default_pybind11_repr ''a: MyClass = <MyClass object at 0x7fAB1020>''
           = ([''<MyClass object at 0x7fAB1020>''], ''a: MyClass = ...'')"
    using t by (simp add: replace_default_empty object_repr_def qualified_name_def)
  obtain st' where
    i: "FunctionSignature_init accept_all ''f''
          ''a: MyClass = <MyClass object at 0x7fAB1020>'' ''None'' True initial_state
        = Inr (\<lparr>name = ''f'', args = ''a: MyClass = ...'', rtype = ''None''\<rparr>, st')"
    using t b p by (auto simp: replace_default_empty)
  have "n_invalid_default_values st' = 1"
    using t i n by (auto simp: replace_default_empty)
  moreover have "n_invalid_default_values
                   (log_invalid_defaults [''<MyClass object at 0x7fAB1020>''] initial_state) = 1"
    using t n by (simp add: r object_repr_def qualified_name_def replace_default_empty)
  ultimately show ?thesis using h(1,2,4) b p r i by simp
qed

text \<open>
  The claim as stated fails for the representation of an enum member: the default
  \<open><Color.RED: 1>\<close> becomes \<open>Color.RED\<close>, not \<open>...\<close>, and nothing is counted.
\<close>

theorem enum_default_not_recorded:
  "FunctionSignature_init accept_all ''f'' ''a: Color = <Color.RED: 1>'' ''None'' True initial_state
   = Inr (\<lparr>name = ''f'', args = ''a: Color = Color.RED'', rtype = ''None''\<rparr>, initial_state) \<and>
   n_invalid_default_values initial_state = 0"
  by (simp add: FunctionSignature_init_def assemble_def enum_default_replaced
        log_invalid_defaults_def validate_syntax_def accept_all_def initial_state_def)

end
